theory Spec2Isabelle
  imports Main
begin

section \<open>Data model\<close>

text \<open>
  Hashes (\<open>bytes32\<close>), addresses (\<open>bytes20\<close>), execution payloads and sub-epoch
  summaries are opaque to the consensus code modelled here: it only stores, compares and
  looks them up. They are natural numbers in the model. The sized integers of the source
  (\<open>uint32\<close>, \<open>uint64\<close>, \<open>uint128\<close>) are subclasses of Python's \<open>int\<close> whose
  arithmetic yields plain unbounded integers, so heights, weights and iteration counts are
  \<open>nat\<close>, and a difference that the source lets go negative is an \<open>int\<close>. The fields of
  a record or block hold values of their type; where the source converts a plain integer
  with \<open>uint32(...)\<close>, the conversion and its failure are part of the model.
\<close>

type_synonym bytes32 = nat
type_synonym bytes20 = nat
type_synonym ExecutionPayload = nat
type_synonym SubEpochSummary = nat

text \<open>The Python exceptions the modelled code can raise.\<close>

datatype exn = AssertionError | KeyError | ValueError | IndexError | ZeroDivisionError

text \<open>
  \<open>corpochain.util.errors.Err\<close>: the members the source names, and \<open>OTHER_ERR c\<close> for
  every other member of the enumeration (the header-validation family).
\<close>

datatype Err =
    UNKNOWN
  | INVALID_PREV_BLOCK_HASH
  | INVALID_HEIGHT
  | INVALID_POSPACE
  | INVALID_SUB_EPOCH_SUMMARY
  | PAYLOAD_INVALIDATED
  | PAYLOAD_NOT_VALIDATED
  | OTHER_ERR nat

text \<open>\<open>BlockRecord\<close>, with the fields the modelled code reads.\<close>

record BlockRecord =
  header_hash :: bytes32
  prev_hash :: bytes32
  height :: nat
  weight :: nat
  total_iters :: nat
  sub_slot_iters :: nat
  overflow :: bool
  first_in_sub_slot :: bool
  is_transaction_block :: bool
  sub_epoch_summary_included :: "SubEpochSummary option"
  finished_challenge_slot_hashes :: "bytes32 list option"
  finished_reward_slot_hashes :: "bytes32 list option"
  last_withdrawal_index :: "nat option"
  coinbase :: bytes20
  reward_infusion_new_challenge :: bytes32

text \<open>
  \<open>FullBlock\<close> and \<open>UnfinishedBlock\<close>, with the properties the modelled code reads. An
  unfinished block has no height or header hash of its own.
\<close>

record FullBlock =
  fb_header_hash :: bytes32
  fb_prev_header_hash :: bytes32
  fb_height :: nat
  fb_weight :: nat
  fb_finished_sub_slots :: nat
  fb_execution_payload :: "ExecutionPayload option"

record UnfinishedBlock =
  ub_prev_header_hash :: bytes32
  ub_execution_payload :: "ExecutionPayload option"

datatype Block = Full FullBlock | Unfinished UnfinishedBlock

fun execution_payload :: "Block \<Rightarrow> ExecutionPayload option" where
  "execution_payload (Full b) = fb_execution_payload b"
| "execution_payload (Unfinished b) = ub_execution_payload b"

section \<open>Block rewards (\<open>consensus/block_rewards.py\<close>)\<close>

definition corpochain_to_gwei :: nat where
  "corpochain_to_gwei = 1000000000"

definition blocks_per_year :: nat where
  "blocks_per_year = 4608 * 2 * 365"

text \<open>
  \<open>_calculate_block_reward\<close>. The source writes the last three rewards as
  \<open>uint64(0.5 * 10^9)\<close>, \<open>uint64(0.25 * 10^9)\<close> and \<open>uint64(0.125 * 10^9)\<close>; the
  products are exact in binary floating point, and the conversion yields the integers
  below.
\<close>

definition calculate_block_reward :: "nat \<Rightarrow> nat" where
  "calculate_block_reward h =
     (if h < 3 * blocks_per_year then 2 * corpochain_to_gwei
      else if h < 6 * blocks_per_year then 1 * corpochain_to_gwei
      else if h < 9 * blocks_per_year then 500000000
      else if h < 12 * blocks_per_year then 250000000
      else if h < 15 * blocks_per_year then 125000000
      else 0)"

section \<open>Execution client\<close>

text \<open>
  Modelled from the spec: the \<open>ExecutionClient\<close> class is not among the sources. The
  spec gives its two operations, \<open>new_payload(payload)\<close> and
  \<open>forkchoice_update(new_head_record)\<close>, each answering with a status string, and calls
  the client stateless from the core's side apart from its own hidden state. The model
  keeps the list of calls made so far (the hidden state), answers each call by a function
  of that list and the call, and holds the \<open>optimistic_import\<close> entry of the beacon
  configuration (\<open>None\<close> when the entry is absent).
\<close>

datatype EngineCall = NewPayload ExecutionPayload | ForkchoiceUpdate BlockRecord

record ExecutionClient =
  respond :: "EngineCall list \<Rightarrow> EngineCall \<Rightarrow> string"
  config_optimistic_import :: "bool option"
  calls :: "EngineCall list"

definition new_payload :: "ExecutionClient \<Rightarrow> ExecutionPayload \<Rightarrow> string \<times> ExecutionClient" where
  "new_payload ec p =
     (respond ec (calls ec) (NewPayload p), ec\<lparr>calls := calls ec @ [NewPayload p]\<rparr>)"

definition forkchoice_update :: "ExecutionClient \<Rightarrow> BlockRecord \<Rightarrow> string \<times> ExecutionClient" where
  "forkchoice_update ec r =
     (respond ec (calls ec) (ForkchoiceUpdate r), ec\<lparr>calls := calls ec @ [ForkchoiceUpdate r]\<rparr>)"

text \<open>\<open>config.get("optimistic_import", True)\<close>.\<close>

definition optimistic_import :: "ExecutionClient \<Rightarrow> bool" where
  "optimistic_import ec = (case config_optimistic_import ec of None \<Rightarrow> True | Some b \<Rightarrow> b)"

section \<open>Body validation (\<open>consensus/block_body_validation.py\<close>)\<close>

text \<open>
  The second half of \<open>validate_block_body\<close>, reached when \<open>new_payload\<close> has not
  settled the verdict: for a full block the block record must be present and
  \<open>forkchoice_update\<close> is consulted.
\<close>

definition validate_block_body_forkchoice ::
  "ExecutionClient \<Rightarrow> Block \<Rightarrow> BlockRecord option \<Rightarrow> (exn + Err option) \<times> ExecutionClient" where
  "validate_block_body_forkchoice ec block block_record =
     (case block of
        Unfinished u \<Rightarrow> (Inr None, ec)
      | Full f \<Rightarrow>
          (case block_record of
             None \<Rightarrow> (Inl AssertionError, ec)
           | Some r \<Rightarrow>
               (let opt = optimistic_import ec;
                    (status, ec') = forkchoice_update ec r
                in if status = ''INVALID'' \<or> status = ''INVALID_BLOCK_HASH''
                   then (Inr (Some PAYLOAD_INVALIDATED), ec')
                   else if status = ''SYNCING'' \<or> status = ''ACCEPTED''
                   then (if \<not> opt then (Inr (Some PAYLOAD_NOT_VALIDATED), ec')
                         else (Inr None, ec'))
                   else if status \<noteq> ''VALID'' then (Inr (Some UNKNOWN), ec')
                   else (Inr None, ec'))))"

text \<open>
  \<open>validate_block_body\<close>. The result is the raised exception or the returned
  \<open>Optional[Err]\<close>, together with the execution client after the calls made.
\<close>

definition validate_block_body ::
  "ExecutionClient \<Rightarrow> Block \<Rightarrow> nat \<Rightarrow> BlockRecord option \<Rightarrow> (exn + Err option) \<times> ExecutionClient" where
  "validate_block_body ec block h block_record =
     (if (case block of Full f \<Rightarrow> h \<noteq> fb_height f | Unfinished u \<Rightarrow> False)
      then (Inl AssertionError, ec)
      else
        (case execution_payload block of
           None \<Rightarrow> (Inr None, ec)
         | Some p \<Rightarrow>
             (let (status, ec') = new_payload ec p
              in if status = ''INVALID'' \<or> status = ''INVALID_BLOCK_HASH''
                 then (Inr (Some PAYLOAD_INVALIDATED), ec')
                 else if status = ''SYNCING'' \<or> status = ''ACCEPTED''
                 then (case block of
                         Unfinished u \<Rightarrow> (Inr (Some PAYLOAD_NOT_VALIDATED), ec')
                       | Full f \<Rightarrow> validate_block_body_forkchoice ec' block block_record)
                 else if status \<noteq> ''VALID'' then (Inr (Some UNKNOWN), ec')
                 else validate_block_body_forkchoice ec' block block_record)))"

text \<open>
  The body-validation policy in the words of the specification: the verdict on an
  unfinished block from the status of \<open>new_payload\<close>, and the verdict on a full block
  from the status of \<open>forkchoice_update\<close> and the \<open>optimistic_import\<close> flag.
\<close>

definition policy_unfinished :: "string \<Rightarrow> Err option" where
  "policy_unfinished np =
     (if np \<in> {''INVALID'', ''INVALID_BLOCK_HASH''} then Some PAYLOAD_INVALIDATED
      else if np \<in> {''SYNCING'', ''ACCEPTED''} then Some PAYLOAD_NOT_VALIDATED
      else if np = ''VALID'' then None
      else Some UNKNOWN)"

definition policy_forkchoice :: "bool \<Rightarrow> string \<Rightarrow> Err option" where
  "policy_forkchoice enabled fc =
     (if fc \<in> {''INVALID'', ''INVALID_BLOCK_HASH''} then Some PAYLOAD_INVALIDATED
      else if fc \<in> {''SYNCING'', ''ACCEPTED''}
      then (if enabled then None else Some PAYLOAD_NOT_VALIDATED)
      else if fc = ''VALID'' then None
      else Some UNKNOWN)"

section \<open>Consensus constants (\<open>consensus/constants.py\<close>)\<close>

text \<open>\<open>ConsensusConstants\<close>, with the fields the modelled code reads.\<close>

record ConsensusConstants =
  MAX_SUB_SLOT_BLOCKS :: nat
  SUB_EPOCH_BLOCKS :: nat
  NUMBER_OF_TIMESTAMPS :: nat
  GENESIS_CHALLENGE :: bytes32
  BLOCKS_CACHE_SIZE :: nat
  PREFARM_ADDRESS :: bytes20
  PREFARM_AMOUNT :: nat

section \<open>Withdrawals (\<open>consensus/block_rewards.py\<close>)\<close>

text \<open>
  \<open>WithdrawalV1\<close> is constructed positionally in the source: index, validator index
  (the withdrawal type: 0 for the prefarm, 1 for a block reward), address, amount.
\<close>

record WithdrawalV1 =
  wd_index :: nat
  wd_validator_index :: nat
  wd_address :: bytes20
  wd_amount :: nat

text \<open>
  The \<open>while True\<close> loop of \<open>create_withdrawals\<close>. \<open>blocks.block_record\<close> is a
  dictionary lookup and raises \<open>KeyError\<close> on a missing hash. The loop runs forever on
  a cycle of records that are not transaction blocks, so the model is a partial function:
  \<open>None\<close> is the run that never returns.
\<close>

partial_function (option) block_rewards_loop ::
  "ConsensusConstants \<Rightarrow> (bytes32 \<rightharpoonup> BlockRecord) \<Rightarrow> BlockRecord \<Rightarrow> nat \<Rightarrow> WithdrawalV1 list
   \<Rightarrow> (exn + WithdrawalV1 list) option" where
  "block_rewards_loop constants blocks cur next_wd_index withdrawals =
     (let withdrawals' = withdrawals @
            [\<lparr>wd_index = next_wd_index, wd_validator_index = 1, wd_address = coinbase cur,
              wd_amount = calculate_block_reward (height cur)\<rparr>];
          next_wd_index' = next_wd_index + 1
      in if prev_hash cur = GENESIS_CHALLENGE constants then Some (Inr withdrawals')
         else
           (case blocks (prev_hash cur) of
              None \<Rightarrow> Some (Inl KeyError)
            | Some cur' \<Rightarrow>
                if is_transaction_block cur' then Some (Inr withdrawals')
                else block_rewards_loop constants blocks cur' next_wd_index' withdrawals'))"

declare block_rewards_loop.simps [code]

definition create_withdrawals ::
  "ConsensusConstants \<Rightarrow> BlockRecord \<Rightarrow> (bytes32 \<rightharpoonup> BlockRecord) \<Rightarrow> (exn + WithdrawalV1 list) option" where
  "create_withdrawals constants prev_tx_block blocks =
     (let next_wd_index =
            (case last_withdrawal_index prev_tx_block of None \<Rightarrow> 0 | Some i \<Rightarrow> i + 1);
          (withdrawals, next_wd_index') =
            (if height prev_tx_block = 0
             then ([\<lparr>wd_index = next_wd_index, wd_validator_index = 0,
                      wd_address = PREFARM_ADDRESS constants,
                      wd_amount = PREFARM_AMOUNT constants * corpochain_to_gwei\<rparr>],
                   next_wd_index + 1)
             else ([], next_wd_index))
      in block_rewards_loop constants blocks prev_tx_block next_wd_index' withdrawals)"

text \<open>
  The walk of the claim about withdrawals, in the specification's words: a list of records
  starting at the previous transaction block, each next one the parent of the one before
  and not a transaction block, ending at a record whose \<open>prev_hash\<close> is the genesis
  challenge or whose parent is a transaction block.
\<close>

fun reward_walk :: "ConsensusConstants \<Rightarrow> (bytes32 \<rightharpoonup> BlockRecord) \<Rightarrow> BlockRecord list \<Rightarrow> bool" where
  "reward_walk constants blocks [] = False"
| "reward_walk constants blocks [c] =
     (prev_hash c = GENESIS_CHALLENGE constants
      \<or> (case blocks (prev_hash c) of None \<Rightarrow> False | Some t \<Rightarrow> is_transaction_block t))"
| "reward_walk constants blocks (c # d # cs) =
     (prev_hash c \<noteq> GENESIS_CHALLENGE constants
      \<and> blocks (prev_hash c) = Some d
      \<and> \<not> is_transaction_block d
      \<and> reward_walk constants blocks (d # cs))"

text \<open>The reward withdrawals of a walk, numbered from a first index.\<close>

fun reward_withdrawals :: "nat \<Rightarrow> BlockRecord list \<Rightarrow> WithdrawalV1 list" where
  "reward_withdrawals i [] = []"
| "reward_withdrawals i (c # cs) =
     \<lparr>wd_index = i, wd_validator_index = 1, wd_address = coinbase c,
      wd_amount = calculate_block_reward (height c)\<rparr> # reward_withdrawals (i + 1) cs"

section \<open>Block store and height map\<close>

text \<open>
  Modelled from the spec: the \<open>BlockStore\<close> class is not among the sources. The spec
  gives a table of blocks keyed by hash, holding the full block, its record and the
  \<open>in_main_chain\<close> flag, and a singleton peak. \<open>add_full_block\<close> writes a row,
  \<open>set_in_chain\<close> marks records as canonical, \<open>set_peak\<close> sets the peak, and
  \<open>rollback(height)\<close> drops the sub-epoch summaries strictly above \<open>height\<close>. The
  writer transaction commits on normal exit and restores the store on an exception.
\<close>

record BlockStore =
  rows :: "bytes32 \<rightharpoonup> FullBlock \<times> BlockRecord"
  in_main_chain :: "bytes32 set"
  store_peak :: "bytes32 option"

definition get_full_block :: "BlockStore \<Rightarrow> bytes32 \<Rightarrow> FullBlock option" where
  "get_full_block st hh = map_option fst (rows st hh)"

definition get_block_record :: "BlockStore \<Rightarrow> bytes32 \<Rightarrow> BlockRecord option" where
  "get_block_record st hh = map_option snd (rows st hh)"

definition add_full_block :: "bytes32 \<Rightarrow> FullBlock \<Rightarrow> BlockRecord \<Rightarrow> BlockStore \<Rightarrow> BlockStore" where
  "add_full_block hh block r st = st\<lparr>rows := (rows st)(hh \<mapsto> (block, r))\<rparr>"

definition set_in_chain :: "bytes32 list \<Rightarrow> BlockStore \<Rightarrow> BlockStore" where
  "set_in_chain hs st = st\<lparr>in_main_chain := in_main_chain st \<union> set hs\<rparr>"

definition set_peak :: "bytes32 \<Rightarrow> BlockStore \<Rightarrow> BlockStore" where
  "set_peak hh st = st\<lparr>store_peak := Some hh\<rparr>"

definition store_rollback :: "int \<Rightarrow> BlockStore \<Rightarrow> BlockStore" where
  "store_rollback h st =
     st\<lparr>rows := (\<lambda>hh. map_option
        (\<lambda>(block, r). (block, if h < int (height r) then r\<lparr>sub_epoch_summary_included := None\<rparr> else r))
        (rows st hh))\<rparr>"

text \<open>
  Modelled from the spec: the \<open>BlockHeightMap\<close> class is not among the sources. The
  spec gives a map from canonical height to header hash with an optional sub-epoch
  summary, \<open>contains_height\<close>, \<open>get_hash\<close>, \<open>update_height(h, hash, ses)\<close>, and
  \<open>rollback(fork_height)\<close>, which drops all entries strictly above \<open>fork_height\<close>.
  \<open>maybe_flush\<close> writes the map to disk and leaves its content as it is, so it has no
  counterpart in the model.
\<close>

type_synonym BlockHeightMap = "nat \<rightharpoonup> bytes32 \<times> SubEpochSummary option"

definition hm_contains_height :: "BlockHeightMap \<Rightarrow> nat \<Rightarrow> bool" where
  "hm_contains_height m h = (m h \<noteq> None)"

definition hm_get_hash :: "BlockHeightMap \<Rightarrow> nat \<Rightarrow> bytes32 option" where
  "hm_get_hash m h = map_option fst (m h)"

definition hm_update_height ::
  "nat \<Rightarrow> bytes32 \<Rightarrow> SubEpochSummary option \<Rightarrow> BlockHeightMap \<Rightarrow> BlockHeightMap" where
  "hm_update_height h hh ses m = m(h \<mapsto> (hh, ses))"

definition hm_rollback :: "nat \<Rightarrow> BlockHeightMap \<Rightarrow> BlockHeightMap" where
  "hm_rollback fork_height m = (\<lambda>h. if fork_height < h then None else m h)"

section \<open>Blockchain (\<open>consensus/blockchain.py\<close>)\<close>

datatype ReceiveBlockResult =
  NEW_PEAK | ADDED_AS_ORPHAN | INVALID_BLOCK | ALREADY_HAVE_BLOCK | DISCONNECTED_BLOCK

record StateChangeSummary =
  scs_peak :: BlockRecord
  scs_fork_height :: nat

record PreValidationResult =
  pv_error :: "nat option"
  pv_required_iters :: "nat option"

text \<open>The attributes of the \<open>Blockchain\<close> object that the modelled methods read or write.\<close>

record Blockchain =
  constants :: ConsensusConstants
  execution_client :: ExecutionClient
  peak_height :: "nat option"
  block_records :: "bytes32 \<rightharpoonup> BlockRecord"
  heights_in_cache :: "nat \<rightharpoonup> bytes32 set"
  height_map :: BlockHeightMap
  block_store :: BlockStore

text \<open>
  Functions that the modelled methods call and that are not among the sources; they are
  parameters of the model. \<open>block_to_block_record\<close> reads the constants and the chain
  and may raise; \<open>find_fork_point_in_chain\<close> returns a height or \<open>-1\<close>;
  \<open>Err_of_value c\<close> is the enumeration lookup \<open>Err(c)\<close>, \<open>None\<close> when no member
  has the value \<open>c\<close> and the lookup raises \<open>ValueError\<close>;
  \<open>ip_sub_slot_total_iters\<close> is the method of \<open>BlockRecord\<close>.
\<close>

record Collaborators =
  block_to_block_record :: "Blockchain \<Rightarrow> nat \<Rightarrow> FullBlock \<Rightarrow> exn + BlockRecord"
  find_fork_point_in_chain :: "Blockchain \<Rightarrow> BlockRecord \<Rightarrow> BlockRecord \<Rightarrow> exn + int"
  Err_of_value :: "nat \<Rightarrow> Err option"
  ip_sub_slot_total_iters :: "ConsensusConstants \<Rightarrow> BlockRecord \<Rightarrow> nat"

definition contains_block :: "Blockchain \<Rightarrow> bytes32 \<Rightarrow> bool" where
  "contains_block bc hh = (block_records bc hh \<noteq> None)"

definition block_record :: "Blockchain \<Rightarrow> bytes32 \<Rightarrow> exn + BlockRecord" where
  "block_record bc hh = (case block_records bc hh of None \<Rightarrow> Inl KeyError | Some r \<Rightarrow> Inr r)"

text \<open>\<open>BlockchainInterface.try_block_record\<close>.\<close>

definition try_block_record :: "Blockchain \<Rightarrow> bytes32 \<Rightarrow> BlockRecord option" where
  "try_block_record bc hh = (if contains_block bc hh then block_records bc hh else None)"

definition height_to_hash :: "Blockchain \<Rightarrow> nat \<Rightarrow> bytes32 option" where
  "height_to_hash bc h =
     (if \<not> hm_contains_height (height_map bc) h then None else hm_get_hash (height_map bc) h)"

definition height_to_block_record :: "Blockchain \<Rightarrow> nat \<Rightarrow> exn + BlockRecord" where
  "height_to_block_record bc h =
     (case height_to_hash bc h of None \<Rightarrow> Inl ValueError | Some hh \<Rightarrow> block_record bc hh)"

definition get_peak :: "Blockchain \<Rightarrow> exn + BlockRecord option" where
  "get_peak bc =
     (case peak_height bc of
        None \<Rightarrow> Inr None
      | Some h \<Rightarrow> (case height_to_block_record bc h of Inl e \<Rightarrow> Inl e | Inr r \<Rightarrow> Inr (Some r)))"

definition add_block_record :: "Blockchain \<Rightarrow> BlockRecord \<Rightarrow> Blockchain" where
  "add_block_record bc r =
     bc\<lparr>block_records := (block_records bc)(header_hash r \<mapsto> r),
        heights_in_cache := (heights_in_cache bc)(height r \<mapsto>
          insert (header_hash r)
            (case heights_in_cache bc (height r) of None \<Rightarrow> {} | Some s \<Rightarrow> s))\<rparr>"

text \<open>
  The backtracking loop of \<open>_reconsider_peak\<close>: from the new record back to the fork
  point, fetching block and record from the store. It ends at the fork point, at a block
  of height 0, or with a failed assertion when the store lacks a hash; on a cycle of
  stored records it runs forever, so the model is a partial function.
\<close>

partial_function (option) blocks_to_add_loop ::
  "Blockchain \<Rightarrow> int \<Rightarrow> bytes32 \<Rightarrow> (FullBlock \<times> BlockRecord) list
   \<Rightarrow> (exn + (FullBlock \<times> BlockRecord) list) option" where
  "blocks_to_add_loop bc fork_height cur blocks_to_add =
     (if fork_height < 0 \<or> Some cur \<noteq> height_to_hash bc (nat fork_height)
      then
        (case get_full_block (block_store bc) cur of
           None \<Rightarrow> Some (Inl AssertionError)
         | Some fetched_full_block \<Rightarrow>
             (case get_block_record (block_store bc) cur of
                None \<Rightarrow> Some (Inl AssertionError)
              | Some fetched_block_record \<Rightarrow>
                  (let blocks_to_add' = blocks_to_add @ [(fetched_full_block, fetched_block_record)]
                   in if fb_height fetched_full_block = 0 then Some (Inr blocks_to_add')
                      else blocks_to_add_loop bc fork_height (prev_hash fetched_block_record)
                             blocks_to_add')))
      else Some (Inr blocks_to_add))"

declare blocks_to_add_loop.simps [code]

text \<open>
  \<open>_reconsider_peak\<close>. It returns the records to add, the state change summary if the
  peak changed, and the chain with the store as the method leaves it.
\<close>

definition reconsider_peak ::
  "Collaborators \<Rightarrow> Blockchain \<Rightarrow> BlockRecord \<Rightarrow> bool \<Rightarrow> nat option
   \<Rightarrow> (exn + BlockRecord list \<times> StateChangeSummary option \<times> Blockchain) option" where
  "reconsider_peak env bc r genesis fork_point_with_peak =
     (case get_peak bc of
        Inl e \<Rightarrow> Some (Inl e)
      | Inr peak \<Rightarrow>
          if genesis then
            (case peak of
               None \<Rightarrow>
                 (case get_full_block (block_store bc) (header_hash r) of
                    None \<Rightarrow> Some (Inl AssertionError)
                  | Some block \<Rightarrow>
                      Some (Inr ([r], Some \<lparr>scs_peak = r, scs_fork_height = 0\<rparr>,
                        bc\<lparr>block_store :=
                          set_peak (header_hash r) (set_in_chain [header_hash r] (block_store bc))\<rparr>)))
             | Some p \<Rightarrow> Some (Inr ([], None, bc)))
          else
            (case peak of
               None \<Rightarrow> Some (Inl AssertionError)
             | Some p \<Rightarrow>
                 if weight r \<le> weight p then Some (Inr ([], None, bc))
                 else
                   (case (if prev_hash r = header_hash p then Inr (int (height p))
                          else (case fork_point_with_peak of
                                  Some f \<Rightarrow> Inr (int f)
                                | None \<Rightarrow> find_fork_point_in_chain env bc r p)) of
                      Inl e \<Rightarrow> Some (Inl e)
                    | Inr fork_height \<Rightarrow>
                        (case blocks_to_add_loop bc fork_height (header_hash r) [] of
                           None \<Rightarrow> None
                         | Some (Inl e) \<Rightarrow> Some (Inl e)
                         | Some (Inr blocks_to_add) \<Rightarrow>
                             (let records_to_add = map snd (rev blocks_to_add)
                              in Some (Inr (records_to_add,
                                   Some \<lparr>scs_peak = r, scs_fork_height = nat (max fork_height 0)\<rparr>,
                                   bc\<lparr>block_store :=
                                     set_peak (header_hash r)
                                       (set_in_chain (map header_hash records_to_add)
                                         (store_rollback fork_height (block_store bc)))\<rparr>)))))))"

text \<open>
  The cache and height map updates that \<open>receive_block\<close> makes inside the transaction
  once \<open>_reconsider_peak\<close> has returned, and the update of \<open>_peak_height\<close> after it.
\<close>

definition apply_records ::
  "Blockchain \<Rightarrow> BlockRecord \<Rightarrow> BlockRecord list \<Rightarrow> StateChangeSummary option \<Rightarrow> Blockchain" where
  "apply_records bc r records state_change_summary =
     (let bc1 = add_block_record bc r;
          bc2 = (case state_change_summary of
                   None \<Rightarrow> bc1
                 | Some s \<Rightarrow> bc1\<lparr>height_map := hm_rollback (scs_fork_height s) (height_map bc1)\<rparr>);
          bc3 = bc2\<lparr>height_map :=
                  fold (\<lambda>f m. hm_update_height (height f) (header_hash f) (sub_epoch_summary_included f) m)
                    records (height_map bc2)\<rparr>
      in (case state_change_summary of
            None \<Rightarrow> bc3
          | Some s \<Rightarrow> bc3\<lparr>peak_height := Some (height r)\<rparr>))"

text \<open>
  \<open>receive_block\<close>. The result is the chain after the call, with the raised exception
  or the returned triple; \<open>None\<close> is the run that never returns. An exception inside the
  writer transaction restores the store; the cache, the height map and \<open>_peak_height\<close>
  are written only after the last statement that can raise, so the chain is then as it
  was before the transaction.
\<close>

definition receive_block ::
  "Collaborators \<Rightarrow> Blockchain \<Rightarrow> FullBlock \<Rightarrow> PreValidationResult \<Rightarrow> nat option
   \<Rightarrow> (Blockchain \<times> (exn + ReceiveBlockResult \<times> Err option \<times> StateChangeSummary option)) option" where
  "receive_block env bc block pre_validation_result fork_point_with_peak =
     (let genesis = (fb_height block = 0) in
      if contains_block bc (fb_header_hash block)
      then Some (bc, Inr (ALREADY_HAVE_BLOCK, None, None))
      else if \<not> contains_block bc (fb_prev_header_hash block) \<and> \<not> genesis
      then Some (bc, Inr (DISCONNECTED_BLOCK, Some INVALID_PREV_BLOCK_HASH, None))
      else
        (case (if genesis then Inr False
               else (case block_record bc (fb_prev_header_hash block) of
                       Inl e \<Rightarrow> Inl e
                     | Inr parent \<Rightarrow> Inr (height parent + 1 \<noteq> fb_height block))) of
           Inl e \<Rightarrow> Some (bc, Inl e)
         | Inr True \<Rightarrow> Some (bc, Inr (INVALID_BLOCK, Some INVALID_HEIGHT, None))
         | Inr False \<Rightarrow>
             (case pv_error pre_validation_result of
                Some c \<Rightarrow>
                  (case Err_of_value env c of
                     None \<Rightarrow> Some (bc, Inl ValueError)
                   | Some e \<Rightarrow> Some (bc, Inr (INVALID_BLOCK, Some e, None)))
              | None \<Rightarrow>
                  (case pv_required_iters pre_validation_result of
                     None \<Rightarrow> Some (bc, Inl AssertionError)
                   | Some required_iters \<Rightarrow>
                       (case block_to_block_record env bc required_iters block of
                          Inl e \<Rightarrow> Some (bc, Inl e)
                        | Inr r \<Rightarrow>
                            (let (error_code, ec) =
                                   validate_block_body (execution_client bc) (Full block)
                                     (fb_height block) (Some r);
                                 bc1 = bc\<lparr>execution_client := ec\<rparr>
                             in case error_code of
                                  Inl e \<Rightarrow> Some (bc1, Inl e)
                                | Inr (Some err) \<Rightarrow> Some (bc1, Inr (INVALID_BLOCK, Some err, None))
                                | Inr None \<Rightarrow>
                                    (case reconsider_peak env
                                            (bc1\<lparr>block_store :=
                                               add_full_block (fb_header_hash block) block r
                                                 (block_store bc1)\<rparr>)
                                            r genesis fork_point_with_peak of
                                       None \<Rightarrow> None
                                     | Some (Inl e) \<Rightarrow> Some (bc1, Inl e)
                                     | Some (Inr (records, state_change_summary, bc2)) \<Rightarrow>
                                         Some (apply_records bc2 r records state_change_summary,
                                               (case state_change_summary of
                                                  Some s \<Rightarrow> Inr (NEW_PEAK, None, Some s)
                                                | None \<Rightarrow> Inr (ADDED_AS_ORPHAN, None, None))))))))))"

text \<open>
  The loop of \<open>clean_block_record\<close>, from a height that is not negative. The inner
  \<open>for\<close> loop deletes each hash of the set from the record cache and raises
  \<open>KeyError\<close> at a hash the cache does not hold; the order in which a Python set is
  walked is not fixed, so the model gives the exception without the half-cleaned chain.
\<close>

function clean_block_record_loop :: "Blockchain \<Rightarrow> nat \<Rightarrow> exn + Blockchain" where
  "clean_block_record_loop bc h =
     (case heights_in_cache bc h of
        None \<Rightarrow> Inr bc
      | Some blocks_to_remove \<Rightarrow>
          if \<exists>hh \<in> blocks_to_remove. block_records bc hh = None then Inl KeyError
          else
            (let bc' = bc\<lparr>block_records :=
                            (\<lambda>hh. if hh \<in> blocks_to_remove then None else block_records bc hh),
                          heights_in_cache := (heights_in_cache bc)(h := None)\<rparr>
             in if h = 0 then Inr bc' else clean_block_record_loop bc' (h - 1)))"
  by pat_completeness auto
termination
  by (relation "measure snd") auto

declare clean_block_record_loop.simps [simp del]

text \<open>
  The constructor \<open>uint32(v)\<close> of the sized integers, which are not among the sources:
  the value itself when it fits 32 bits, \<open>ValueError\<close> when it does not.
\<close>

definition uint32 :: "int \<Rightarrow> exn + nat" where
  "uint32 v = (if 0 \<le> v \<and> v < 2 ^ 32 then Inr (nat v) else Inl ValueError)"

text \<open>
  \<open>clean_block_record\<close>. Its argument is a plain \<open>int\<close>; the first look-up in the
  heights index converts it with \<open>uint32(height)\<close>, and the later ones convert smaller
  heights.
\<close>

definition clean_block_record :: "Blockchain \<Rightarrow> int \<Rightarrow> exn + Blockchain" where
  "clean_block_record bc h =
     (if h < 0 then Inr bc
      else (case uint32 h of
              Inl e \<Rightarrow> Inl e
            | Inr k \<Rightarrow> clean_block_record_loop bc k))"

text \<open>\<open>clean_block_records\<close>; \<open>len\<close> of the record cache is the number of its keys.\<close>

definition clean_block_records :: "Blockchain \<Rightarrow> exn + Blockchain" where
  "clean_block_records bc =
     (if card (dom (block_records bc)) < BLOCKS_CACHE_SIZE (constants bc) then Inr bc
      else
        (case peak_height bc of
           None \<Rightarrow> Inl AssertionError
         | Some p \<Rightarrow>
             if int p - int (BLOCKS_CACHE_SIZE (constants bc)) < 0 then Inr bc
             else clean_block_record bc (int p - int (BLOCKS_CACHE_SIZE (constants bc)))))"

text \<open>
  The heights index agrees with the record cache: every cached record is listed under its
  own height, and every listed hash is a cached record of that height.
\<close>

definition index_consistent :: "Blockchain \<Rightarrow> bool" where
  "index_consistent bc \<longleftrightarrow>
     (\<forall>hh r. block_records bc hh = Some r \<longrightarrow>
        (\<exists>s. heights_in_cache bc (height r) = Some s \<and> hh \<in> s))
     \<and> (\<forall>h s hh. heights_in_cache bc h = Some s \<and> hh \<in> s \<longrightarrow>
        (\<exists>r. block_records bc hh = Some r \<and> height r = h))"

text \<open>
  The heights index has no gap between a cached record at or below \<open>h\<close> and \<open>h\<close>.
\<close>

definition no_gap_below :: "Blockchain \<Rightarrow> nat \<Rightarrow> bool" where
  "no_gap_below bc h \<longleftrightarrow>
     (\<forall>hh r k. block_records bc hh = Some r \<and> height r \<le> k \<and> k \<le> h \<longrightarrow>
        heights_in_cache bc k \<noteq> None)"

text \<open>Adding the records of a list to the cache, one call of \<open>add_block_record\<close> each.\<close>

definition add_block_records :: "Blockchain \<Rightarrow> BlockRecord list \<Rightarrow> Blockchain" where
  "add_block_records bc rs = fold (\<lambda>r b. add_block_record b r) rs bc"

text \<open>One round of the loop: the hashes listed under a height leave the cache, the height leaves the index.\<close>

definition remove_height :: "Blockchain \<Rightarrow> nat \<Rightarrow> bytes32 set \<Rightarrow> Blockchain" where
  "remove_height bc h s =
     bc\<lparr>block_records := (\<lambda>hh. if hh \<in> s then None else block_records bc hh),
        heights_in_cache := (heights_in_cache bc)(h := None)\<rparr>"

text \<open>What a run of the loop from height \<open>h\<close> does to a cache whose index is consistent:
  it keeps the index consistent, adds nothing, keeps every record above \<open>h\<close>, and removes
  every record at or below \<open>h\<close> when the index has no gap.\<close>

definition cleaned :: "Blockchain \<Rightarrow> nat \<Rightarrow> Blockchain \<Rightarrow> bool" where
  "cleaned bc h bc' \<longleftrightarrow>
     index_consistent bc'
     \<and> peak_height bc' = peak_height bc
     \<and> constants bc' = constants bc
     \<and> (\<forall>hh. block_records bc' hh = None \<or> block_records bc' hh = block_records bc hh)
     \<and> (\<forall>hh r. block_records bc hh = Some r \<and> h < height r \<longrightarrow> block_records bc' hh = Some r)
     \<and> (no_gap_below bc h \<longrightarrow>
          (\<forall>hh r. block_records bc hh = Some r \<and> height r \<le> h \<longrightarrow> block_records bc' hh = None))"

text \<open>
  The inner \<open>for\<close> loop of \<open>get_recent_reward_challenges\<close>, over the finished reward
  slot hashes from the most recent one: it stops when the running total is below
  \<open>sub_slot_iters\<close>, so the subtraction never goes below zero.
\<close>

fun slot_pairs :: "nat \<Rightarrow> nat \<Rightarrow> bytes32 list \<Rightarrow> (bytes32 \<times> nat) list" where
  "slot_pairs sub_slot_total_iters ssi [] = []"
| "slot_pairs sub_slot_total_iters ssi (rc # rcs) =
     (if sub_slot_total_iters < ssi then []
      else (rc, sub_slot_total_iters) # slot_pairs (sub_slot_total_iters - ssi) ssi rcs)"

text \<open>
  What one round of the \<open>while\<close> loop appends for the record \<open>c\<close>: the record's own
  pair unless the record is the peak, then the pairs of its finished sub-slots if it is
  the first in its sub-slot.
\<close>

definition block_pairs ::
  "Collaborators \<Rightarrow> ConsensusConstants \<Rightarrow> BlockRecord \<Rightarrow> BlockRecord \<Rightarrow> exn + (bytes32 \<times> nat) list" where
  "block_pairs env C peak c =
     (let own = (if c \<noteq> peak then [(reward_infusion_new_challenge c, total_iters c)] else [])
      in if first_in_sub_slot c
         then (case finished_reward_slot_hashes c of
                 None \<Rightarrow> Inl AssertionError
               | Some hs \<Rightarrow>
                   Inr (own @ slot_pairs (ip_sub_slot_total_iters env C c) (sub_slot_iters c) (rev hs)))
         else Inr own)"

text \<open>
  The \<open>while\<close> loop of \<open>get_recent_reward_challenges\<close>. It runs forever when the parent
  hash of the peak leads back to the peak and nothing is appended, so the model is a
  partial function.
\<close>

partial_function (option) recent_rc_loop ::
  "Collaborators \<Rightarrow> Blockchain \<Rightarrow> BlockRecord \<Rightarrow> BlockRecord option \<Rightarrow> (bytes32 \<times> nat) list
   \<Rightarrow> (exn + (bytes32 \<times> nat) list) option" where
  "recent_rc_loop env bc peak cur recent_rc =
     (case cur of
        None \<Rightarrow> Some (Inr recent_rc)
      | Some c \<Rightarrow>
          if length recent_rc < 2 * MAX_SUB_SLOT_BLOCKS (constants bc)
          then (case block_pairs env (constants bc) peak c of
                  Inl e \<Rightarrow> Some (Inl e)
                | Inr ps \<Rightarrow>
                    recent_rc_loop env bc peak (try_block_record bc (prev_hash c)) (recent_rc @ ps))
          else Some (Inr recent_rc))"

declare recent_rc_loop.simps [code]

definition get_recent_reward_challenges ::
  "Collaborators \<Rightarrow> Blockchain \<Rightarrow> (exn + (bytes32 \<times> nat) list) option" where
  "get_recent_reward_challenges env bc =
     (case get_peak bc of
        Inl e \<Rightarrow> Some (Inl e)
      | Inr None \<Rightarrow> Some (Inr [])
      | Inr (Some peak) \<Rightarrow>
          (case recent_rc_loop env bc peak (Some peak) [] of
             None \<Rightarrow> None
           | Some (Inl e) \<Rightarrow> Some (Inl e)
           | Some (Inr recent_rc) \<Rightarrow> Some (Inr (rev recent_rc))))"

text \<open>
  The specification's side of \<open>get_recent_reward_challenges\<close>, written without the loops
  of the code. The pairs of the finished reward sub-slots of a record: the hashes are
  counted from the most recent one, and hash number \<open>j\<close> is paired with the total
  iterations of the record's sub-slot less \<open>j\<close> sub-slots, for as long as \<open>j + 1\<close>
  sub-slots fit below that total.
\<close>

definition finished_slot_pairs :: "nat \<Rightarrow> nat \<Rightarrow> bytes32 list \<Rightarrow> (bytes32 \<times> nat) list" where
  "finished_slot_pairs sub_slot_total_iters ssi hs =
     map (\<lambda>j. (rev hs ! j, sub_slot_total_iters - j * ssi))
       (filter (\<lambda>j. (j + 1) * ssi \<le> sub_slot_total_iters) [0 ..< length hs])"

text \<open>
  The pairs of one record of the walk: its own pair, the peak excepted, then the pairs of
  its finished reward sub-slots if it is the first in its sub-slot.
\<close>

definition record_pairs ::
  "Collaborators \<Rightarrow> ConsensusConstants \<Rightarrow> BlockRecord \<Rightarrow> BlockRecord \<Rightarrow> (bytes32 \<times> nat) list" where
  "record_pairs env C peak c =
     (if c = peak then [] else [(reward_infusion_new_challenge c, total_iters c)])
     @ (if first_in_sub_slot c
        then finished_slot_pairs (ip_sub_slot_total_iters env C c) (sub_slot_iters c)
               (case finished_reward_slot_hashes c of None \<Rightarrow> [] | Some hs \<Rightarrow> hs)
        else [])"

text \<open>
  The walk back from the peak: the records visited, each the record that the cache holds
  under the parent hash of the one before, a record being visited while fewer than
  \<open>2 * MAX_SUB_SLOT_BLOCKS\<close> pairs have been collected before it; \<open>n\<close> counts the pairs
  collected so far. The pairs of a walk are those of its records, in the order met.
\<close>

fun rc_walk ::
  "Collaborators \<Rightarrow> Blockchain \<Rightarrow> BlockRecord \<Rightarrow> BlockRecord option \<Rightarrow> nat \<Rightarrow> BlockRecord list \<Rightarrow> bool" where
  "rc_walk env bc peak cur n [] =
     (cur = None \<or> 2 * MAX_SUB_SLOT_BLOCKS (constants bc) \<le> n)"
| "rc_walk env bc peak cur n (c # cs) =
     (cur = Some c \<and> n < 2 * MAX_SUB_SLOT_BLOCKS (constants bc)
      \<and> rc_walk env bc peak (block_records bc (prev_hash c))
            (n + length (record_pairs env (constants bc) peak c)) cs)"

definition walk_pairs ::
  "Collaborators \<Rightarrow> ConsensusConstants \<Rightarrow> BlockRecord \<Rightarrow> BlockRecord list \<Rightarrow> (bytes32 \<times> nat) list" where
  "walk_pairs env C peak cs = concat (map (record_pairs env C peak) cs)"

text \<open>A record is cached when the record cache holds it under some hash.\<close>

definition cached :: "Blockchain \<Rightarrow> BlockRecord \<Rightarrow> bool" where
  "cached bc r \<longleftrightarrow> (\<exists>hh. block_records bc hh = Some r)"

section \<open>Pre-validation (\<open>consensus/multiprocess_validation.py\<close>)\<close>

text \<open>
  The \<open>block_records\<close> argument of \<open>pre_validate_blocks_multiprocessing\<close> is a
  \<open>BlockchainInterface\<close>; the model takes the \<open>BlockCache\<close> of
  \<open>util/block_cache.py\<close>, whose methods read and write one dictionary of block records.
\<close>

type_synonym BlockCache = "bytes32 \<rightharpoonup> BlockRecord"

definition cache_contains_block :: "BlockCache \<Rightarrow> bytes32 \<Rightarrow> bool" where
  "cache_contains_block m hh = (m hh \<noteq> None)"

definition cache_block_record :: "BlockCache \<Rightarrow> bytes32 \<Rightarrow> exn + BlockRecord" where
  "cache_block_record m hh = (case m hh of None \<Rightarrow> Inl KeyError | Some r \<Rightarrow> Inr r)"

definition cache_remove_block_record :: "BlockCache \<Rightarrow> bytes32 \<Rightarrow> exn + BlockCache" where
  "cache_remove_block_record m hh = (if m hh = None then Inl KeyError else Inr (m(hh := None)))"

definition cache_add_block_record :: "BlockCache \<Rightarrow> BlockRecord \<Rightarrow> BlockCache" where
  "cache_add_block_record m r = m(header_hash r \<mapsto> r)"

text \<open>
  Functions that pre-validation calls and that are not among the sources; they are
  parameters of the model. \<open>quality_string\<close> stands for the chain of
  \<open>is_overflow_block\<close>, \<open>get_block_challenge\<close> on the recent blocks and
  \<open>verify_and_get_quality_string\<close>; \<open>run_batches\<close> for the dispatch of the batches
  to the worker pool and the gathering of their results; \<open>err_value\<close> for the value of
  a member of \<open>Err\<close>; \<open>ses_get_hash\<close> for the hash of a sub-epoch summary.
\<close>

record PreValidation =
  get_next_sub_slot_iters_and_difficulty ::
    "ConsensusConstants \<Rightarrow> bool \<Rightarrow> BlockRecord option \<Rightarrow> BlockCache \<Rightarrow> nat \<times> nat"
  quality_string :: "ConsensusConstants \<Rightarrow> FullBlock \<Rightarrow> BlockCache \<Rightarrow> bool \<Rightarrow> bytes32 option"
  calculate_iterations_quality :: "ConsensusConstants \<Rightarrow> bytes32 \<Rightarrow> FullBlock \<Rightarrow> nat \<Rightarrow> nat"
  pv_block_to_block_record ::
    "ConsensusConstants \<Rightarrow> BlockCache \<Rightarrow> nat \<Rightarrow> FullBlock \<Rightarrow> nat \<Rightarrow> exn + BlockRecord"
  ses_get_hash :: "SubEpochSummary \<Rightarrow> bytes32"
  err_value :: "Err \<Rightarrow> nat"
  run_batches ::
    "ConsensusConstants \<Rightarrow> BlockCache \<Rightarrow> BlockCache \<Rightarrow> FullBlock list \<Rightarrow> nat \<Rightarrow> (nat \<times> nat) list
     \<Rightarrow> exn + PreValidationResult list"

text \<open>The three ways a part of the function ends: an exception, a \<open>return\<close>, or going on.\<close>

datatype 'a exit = Raise exn | Return "PreValidationResult list" | Go 'a

definition error_result :: "PreValidation \<Rightarrow> Err \<Rightarrow> PreValidationResult list" where
  "error_result pv e = [\<lparr>pv_error = Some (err_value pv e), pv_required_iters = None\<rparr>]"

text \<open>
  Indexing a Python list: an index from \<open>-len\<close> up to \<open>-1\<close> reads from the end, and
  an index outside \<open>-len .. len - 1\<close> raises \<open>IndexError\<close>.
\<close>

definition py_index :: "'a list \<Rightarrow> int \<Rightarrow> exn + 'a" where
  "py_index xs i =
     (if 0 \<le> i \<and> i < int (length xs) then Inr (xs ! nat i)
      else if i < 0 \<and> - int (length xs) \<le> i then Inr (xs ! nat (int (length xs) + i))
      else Inl IndexError)"

text \<open>
  The \<open>while\<close> loop that collects the recent blocks, walking back from the parent of the
  first block. It raises \<open>KeyError\<close> at a parent hash that is not cached and runs forever
  on a cycle of records, so the model is a partial function.
\<close>

partial_function (option) recent_blocks_loop ::
  "ConsensusConstants \<Rightarrow> BlockCache \<Rightarrow> nat \<Rightarrow> BlockRecord \<Rightarrow> nat \<Rightarrow> nat \<Rightarrow> BlockCache \<Rightarrow> BlockCache
   \<Rightarrow> (exn + BlockRecord \<times> BlockCache \<times> BlockCache) option" where
  "recent_blocks_loop C view num_sub_slots_to_look_for cur num_sub_slots_found
       num_blocks_seen recent_blocks recent_blocks_compressed =
     (if (sub_epoch_summary_included cur = None
          \<or> num_blocks_seen < NUMBER_OF_TIMESTAMPS C
          \<or> num_sub_slots_found < num_sub_slots_to_look_for) \<and> height cur > 0
      then
        (let recent_blocks_compressed' =
               (if num_blocks_seen < NUMBER_OF_TIMESTAMPS C
                   \<or> num_sub_slots_found < num_sub_slots_to_look_for
                then recent_blocks_compressed(header_hash cur \<mapsto> cur)
                else recent_blocks_compressed)
         in case (if first_in_sub_slot cur
                  then (case finished_challenge_slot_hashes cur of
                          None \<Rightarrow> Inl AssertionError
                        | Some hs \<Rightarrow> Inr (num_sub_slots_found + length hs))
                  else Inr num_sub_slots_found) of
              Inl e \<Rightarrow> Some (Inl e)
            | Inr num_sub_slots_found' \<Rightarrow>
                (case view (prev_hash cur) of
                   None \<Rightarrow> Some (Inl KeyError)
                 | Some cur' \<Rightarrow>
                     recent_blocks_loop C view num_sub_slots_to_look_for cur'
                       num_sub_slots_found'
                       (if is_transaction_block cur then num_blocks_seen + 1 else num_blocks_seen)
                       (recent_blocks(header_hash cur \<mapsto> cur)) recent_blocks_compressed'))
      else Some (Inr (cur, recent_blocks, recent_blocks_compressed)))"

declare recent_blocks_loop.simps [code]

text \<open>
  The first part of the function: nothing to collect when the first block is at height 0;
  otherwise its parent must be cached, and the walk starts there.
\<close>

definition recent_window ::
  "PreValidation \<Rightarrow> ConsensusConstants \<Rightarrow> BlockCache \<Rightarrow> FullBlock \<Rightarrow> (BlockCache \<times> BlockCache) exit option" where
  "recent_window pv C view block0 =
     (if fb_height block0 > 0
      then
        (if \<not> cache_contains_block view (fb_prev_header_hash block0)
         then Some (Return (error_result pv INVALID_PREV_BLOCK_HASH))
         else
           (case cache_block_record view (fb_prev_header_hash block0) of
              Inl e \<Rightarrow> Some (Raise e)
            | Inr cur \<Rightarrow>
                (case recent_blocks_loop C view (if overflow cur then 3 else 2) cur 0 0
                        Map.empty Map.empty of
                   None \<Rightarrow> None
                 | Some (Inl e) \<Rightarrow> Some (Raise e)
                 | Some (Inr (cur', recent_blocks, recent_blocks_compressed)) \<Rightarrow>
                     Some (Go (recent_blocks(header_hash cur' \<mapsto> cur'),
                               recent_blocks_compressed(header_hash cur' \<mapsto> cur'))))))
      else Some (Go (Map.empty, Map.empty)))"

text \<open>
  The clean-up on the proof-of-space failure path: every block of the list that was not
  present before the call and is cached now is removed.
\<close>

fun remove_tentative :: "BlockCache \<Rightarrow> (FullBlock \<times> bool) list \<Rightarrow> BlockCache" where
  "remove_tentative m [] = m"
| "remove_tentative m ((block_i, was_present) # rest) =
     remove_tentative
       (if \<not> was_present \<and> cache_contains_block m (fb_header_hash block_i)
        then m(fb_header_hash block_i := None) else m)
       rest"

text \<open>
  The clean-up after the loop: every block that was not present before the call is
  removed, with \<open>KeyError\<close> when it is not cached. The result is the view as the loop
  leaves it, without the records removed before the exception, and the exception if one
  was raised.
\<close>

fun remove_added :: "BlockCache \<Rightarrow> (FullBlock \<times> bool) list \<Rightarrow> BlockCache \<times> exn option" where
  "remove_added m [] = (m, None)"
| "remove_added m ((block_i, was_present) # rest) =
     (if was_present then remove_added m rest
      else (case cache_remove_block_record m (fb_header_hash block_i) of
              Inl e \<Rightarrow> (m, Some e)
            | Inr m' \<Rightarrow> remove_added m' rest))"

text \<open>The local variables of the main loop, with the view it writes to.\<close>

record TentativeState =
  ts_block_records :: BlockCache
  ts_recent_blocks :: BlockCache
  ts_recent_blocks_compressed :: BlockCache
  ts_prev_b :: "BlockRecord option"
  ts_diff_ssis :: "(nat \<times> nat) list"

text \<open>
  The comparison with the sub-epoch summaries of a weight proof: \<open>True\<close> when there is
  nothing to compare or the hashes agree.
\<close>

definition wp_summary_matches ::
  "PreValidation \<Rightarrow> ConsensusConstants \<Rightarrow> SubEpochSummary list option \<Rightarrow> FullBlock \<Rightarrow> BlockRecord
   \<Rightarrow> exn + bool" where
  "wp_summary_matches pv C wp_summaries block block_rec =
     (case sub_epoch_summary_included block_rec of
        None \<Rightarrow> Inr True
      | Some ses \<Rightarrow>
          (case wp_summaries of
             None \<Rightarrow> Inr True
           | Some summaries \<Rightarrow>
               if SUB_EPOCH_BLOCKS C = 0 then Inl ZeroDivisionError
               else (case py_index summaries (int (fb_height block div SUB_EPOCH_BLOCKS C) - 1) of
                       Inl e \<Rightarrow> Inl e
                     | Inr next_ses \<Rightarrow> Inr (ses_get_hash pv ses = ses_get_hash pv next_ses))))"

text \<open>
  The main loop over the blocks. Each round computes the required iterations of a block,
  builds its tentative record and adds it to the view unless the view holds its hash.
  The result is the view as the loop leaves it and the way the loop ends.
\<close>

fun tentative_loop ::
  "PreValidation \<Rightarrow> ConsensusConstants \<Rightarrow> SubEpochSummary list option \<Rightarrow> (FullBlock \<times> bool) list
   \<Rightarrow> FullBlock list \<Rightarrow> TentativeState \<Rightarrow> BlockCache \<times> TentativeState exit" where
  "tentative_loop pv C wp_summaries present [] st = (ts_block_records st, Go st)"
| "tentative_loop pv C wp_summaries present (block # rest) st =
     (case (if fb_height block \<noteq> 0
            then (if \<not> cache_contains_block (ts_block_records st) (fb_prev_header_hash block)
                  then Inl AssertionError
                  else (case ts_prev_b st of
                          None \<Rightarrow>
                            (case cache_block_record (ts_block_records st) (fb_prev_header_hash block) of
                               Inl e \<Rightarrow> Inl e
                             | Inr r \<Rightarrow> Inr (Some r))
                        | Some p \<Rightarrow> Inr (Some p)))
            else Inr (ts_prev_b st)) of
        Inl e \<Rightarrow> (ts_block_records st, Raise e)
      | Inr prev_b \<Rightarrow>
          (let (sub_slot_iters, difficulty) =
                 get_next_sub_slot_iters_and_difficulty pv C (0 < fb_finished_sub_slots block) prev_b
                   (ts_block_records st)
           in case quality_string pv C block (ts_recent_blocks st) (prev_b = None) of
                None \<Rightarrow>
                  (remove_tentative (ts_block_records st) present,
                   Return (error_result pv INVALID_POSPACE))
              | Some q_str \<Rightarrow>
                  (case pv_block_to_block_record pv C (ts_block_records st)
                          (calculate_iterations_quality pv C q_str block difficulty) block
                          sub_slot_iters of
                     Inl e \<Rightarrow>
                       if e = ValueError
                       then (ts_block_records st, Return (error_result pv INVALID_SUB_EPOCH_SUMMARY))
                       else (ts_block_records st, Raise e)
                   | Inr block_rec \<Rightarrow>
                       (case wp_summary_matches pv C wp_summaries block block_rec of
                          Inl e \<Rightarrow> (ts_block_records st, Raise e)
                        | Inr False \<Rightarrow>
                            (ts_block_records st, Return (error_result pv INVALID_SUB_EPOCH_SUMMARY))
                        | Inr True \<Rightarrow>
                            (let known =
                                   (case ts_block_records st (header_hash block_rec) of
                                      None \<Rightarrow> block_rec
                                    | Some r \<Rightarrow> r)
                             in tentative_loop pv C wp_summaries present rest
                                  \<lparr>ts_block_records =
                                     (if \<not> cache_contains_block (ts_block_records st) (header_hash block_rec)
                                      then cache_add_block_record (ts_block_records st) block_rec
                                      else ts_block_records st),
                                   ts_recent_blocks =
                                     (ts_recent_blocks st)(header_hash block_rec \<mapsto> known),
                                   ts_recent_blocks_compressed =
                                     (ts_recent_blocks_compressed st)(header_hash block_rec \<mapsto> known),
                                   ts_prev_b = Some block_rec,
                                   ts_diff_ssis = ts_diff_ssis st @ [(difficulty, sub_slot_iters)]\<rparr>)))))"

text \<open>
  \<open>pre_validate_blocks_multiprocessing\<close>. The result is the view after the call, with
  the raised exception or the returned list (\<open>view\<close> is the \<open>block_records\<close>
  argument); \<open>None\<close> is the run that never returns.
\<close>

definition pre_validate_blocks_multiprocessing ::
  "PreValidation \<Rightarrow> ConsensusConstants \<Rightarrow> BlockCache \<Rightarrow> FullBlock list \<Rightarrow> nat
   \<Rightarrow> SubEpochSummary list option \<Rightarrow> (BlockCache \<times> (exn + PreValidationResult list)) option" where
  "pre_validate_blocks_multiprocessing pv C view blocks batch_size wp_summaries =
     (case blocks of
        [] \<Rightarrow> Some (view, Inl IndexError)
      | block0 # others \<Rightarrow>
          (case recent_window pv C view block0 of
             None \<Rightarrow> None
           | Some (Raise e) \<Rightarrow> Some (view, Inl e)
           | Some (Return res) \<Rightarrow> Some (view, Inr res)
           | Some (Go (recent_blocks, recent_blocks_compressed)) \<Rightarrow>
               (let present =
                      zip blocks (map (\<lambda>b. cache_contains_block view (fb_header_hash b)) blocks)
                in case tentative_loop pv C wp_summaries present blocks
                          \<lparr>ts_block_records = view, ts_recent_blocks = recent_blocks,
                           ts_recent_blocks_compressed = recent_blocks_compressed,
                           ts_prev_b = None, ts_diff_ssis = []\<rparr> of
                     (m, Raise e) \<Rightarrow> Some (m, Inl e)
                   | (m, Return res) \<Rightarrow> Some (m, Inr res)
                   | (m, Go st) \<Rightarrow>
                       (case remove_added m present of
                          (m', Some e) \<Rightarrow> Some (m', Inl e)
                        | (m', None) \<Rightarrow>
                            Some (m', run_batches pv C (ts_recent_blocks st)
                                        (ts_recent_blocks_compressed st) blocks batch_size
                                        (ts_diff_ssis st))))))"

section \<open>Concrete inputs\<close>

text \<open>Engines that give the same answer to every call, and clients built on them.\<close>

definition answer_valid :: "EngineCall list \<Rightarrow> EngineCall \<Rightarrow> string" where
  "answer_valid cs c = ''VALID''"

definition answer_invalid :: "EngineCall list \<Rightarrow> EngineCall \<Rightarrow> string" where
  "answer_invalid cs c = ''INVALID''"

definition answer_syncing :: "EngineCall list \<Rightarrow> EngineCall \<Rightarrow> string" where
  "answer_syncing cs c = ''SYNCING''"

definition client_valid :: ExecutionClient where
  "client_valid = \<lparr>respond = answer_valid, config_optimistic_import = None, calls = []\<rparr>"

definition client_invalid :: ExecutionClient where
  "client_invalid = \<lparr>respond = answer_invalid, config_optimistic_import = None, calls = []\<rparr>"

definition client_syncing :: "bool \<Rightarrow> ExecutionClient" where
  "client_syncing b = \<lparr>respond = answer_syncing, config_optimistic_import = Some b, calls = []\<rparr>"

text \<open>A full block at height 1, an unfinished block, and block records by their key fields.\<close>

definition full_block_1 :: "ExecutionPayload option \<Rightarrow> FullBlock" where
  "full_block_1 p = \<lparr>fb_header_hash = 11, fb_prev_header_hash = 10, fb_height = 1,
     fb_weight = 2, fb_finished_sub_slots = 0, fb_execution_payload = p\<rparr>"

definition unfinished_block_1 :: "ExecutionPayload option \<Rightarrow> UnfinishedBlock" where
  "unfinished_block_1 p = \<lparr>ub_prev_header_hash = 10, ub_execution_payload = p\<rparr>"

definition mk_record :: "bytes32 \<Rightarrow> bytes32 \<Rightarrow> nat \<Rightarrow> nat \<Rightarrow> bool \<Rightarrow> BlockRecord" where
  "mk_record hh ph h w tx =
     \<lparr>header_hash = hh, prev_hash = ph, height = h, weight = w, total_iters = 1000 * (h + 1),
      sub_slot_iters = 1000, overflow = False, first_in_sub_slot = False,
      is_transaction_block = tx, sub_epoch_summary_included = None,
      finished_challenge_slot_hashes = None, finished_reward_slot_hashes = None,
      last_withdrawal_index = None, coinbase = 500 + hh, reward_infusion_new_challenge = 700 + hh\<rparr>"

text \<open>Constants of a small network, and a chain of four cached records above genesis.\<close>

definition constants_1 :: ConsensusConstants where
  "constants_1 = \<lparr>MAX_SUB_SLOT_BLOCKS = 2, SUB_EPOCH_BLOCKS = 384, NUMBER_OF_TIMESTAMPS = 11,
     GENESIS_CHALLENGE = 0, BLOCKS_CACHE_SIZE = 3, PREFARM_ADDRESS = 99, PREFARM_AMOUNT = 21000000\<rparr>"

definition chain_1 :: "bytes32 \<rightharpoonup> BlockRecord" where
  "chain_1 = [10 \<mapsto> mk_record 10 0 0 1 True,
              11 \<mapsto> mk_record 11 10 1 2 False,
              12 \<mapsto> mk_record 12 11 2 3 False,
              13 \<mapsto> (mk_record 13 12 3 4 True)\<lparr>last_withdrawal_index := Some 4\<rparr>]"

text \<open>
  Collaborators for the concrete runs: the record of a block takes over the block's hash,
  parent hash, height and weight; no fork point is found below the peak; every error
  code names a member of \<open>Err\<close>.
\<close>

definition mk_full_block :: "bytes32 \<Rightarrow> bytes32 \<Rightarrow> nat \<Rightarrow> nat \<Rightarrow> ExecutionPayload option \<Rightarrow> FullBlock" where
  "mk_full_block hh ph h w p = \<lparr>fb_header_hash = hh, fb_prev_header_hash = ph, fb_height = h,
     fb_weight = w, fb_finished_sub_slots = 0, fb_execution_payload = p\<rparr>"

definition b2r_1 :: "Blockchain \<Rightarrow> nat \<Rightarrow> FullBlock \<Rightarrow> exn + BlockRecord" where
  "b2r_1 bc ri block =
     Inr (mk_record (fb_header_hash block) (fb_prev_header_hash block) (fb_height block)
            (fb_weight block) True)"

definition no_fork_point :: "Blockchain \<Rightarrow> BlockRecord \<Rightarrow> BlockRecord \<Rightarrow> exn + int" where
  "no_fork_point bc r p = Inr (- 1)"

definition err_of_1 :: "nat \<Rightarrow> Err option" where
  "err_of_1 c = (if c = 1 then Some UNKNOWN else Some (OTHER_ERR c))"

definition ip_total_1 :: "ConsensusConstants \<Rightarrow> BlockRecord \<Rightarrow> nat" where
  "ip_total_1 C r = total_iters r"

definition env_1 :: Collaborators where
  "env_1 = \<lparr>block_to_block_record = b2r_1, find_fork_point_in_chain = no_fork_point,
     Err_of_value = err_of_1, ip_sub_slot_total_iters = ip_total_1\<rparr>"

text \<open>A chain of two blocks: genesis with hash 10, and the peak with hash 11 and weight 3.\<close>

definition blockchain_1 :: Blockchain where
  "blockchain_1 =
     \<lparr>constants = constants_1, execution_client = client_valid, peak_height = Some 1,
      block_records = [10 \<mapsto> mk_record 10 0 0 1 True, 11 \<mapsto> mk_record 11 10 1 3 True],
      heights_in_cache = [0 \<mapsto> {10}, 1 \<mapsto> {11}],
      height_map = [0 \<mapsto> (10, None), 1 \<mapsto> (11, None)],
      block_store =
        \<lparr>rows = [10 \<mapsto> (mk_full_block 10 0 0 1 None, mk_record 10 0 0 1 True),
                 11 \<mapsto> (mk_full_block 11 10 1 3 None, mk_record 11 10 1 3 True)],
         in_main_chain = {10, 11}, store_peak = Some 11\<rparr>\<rparr>"

definition pre_ok :: PreValidationResult where
  "pre_ok = \<lparr>pv_error = None, pv_required_iters = Some 5\<rparr>"

definition pre_failed :: PreValidationResult where
  "pre_failed = \<lparr>pv_error = Some 7, pv_required_iters = None\<rparr>"

text \<open>
  A block that extends the peak, a lighter sibling of the peak, and the chain after the
  first has been received.
\<close>

definition block_2 :: FullBlock where
  "block_2 = mk_full_block 12 11 2 5 (Some 8)"

definition block_1_sibling :: FullBlock where
  "block_1_sibling = mk_full_block 21 10 1 2 (Some 8)"

definition blockchain_2 :: Blockchain where
  "blockchain_2 =
     (case receive_block env_1 blockchain_1 block_2 pre_ok None of
        Some (bc, res) \<Rightarrow> bc
      | None \<Rightarrow> blockchain_1)"

text \<open>
  A cache of two records far apart under a peak at height 10, a cache with no record at
  height 1 under a peak at height 3 and a cache size of 1, the two-block chain with a
  cache size of 1, the empty chain, and a run of records at consecutive heights.
\<close>

definition blockchain_sparse :: Blockchain where
  "blockchain_sparse =
     \<lparr>constants = constants_1, execution_client = client_valid, peak_height = Some 10,
      block_records = [10 \<mapsto> mk_record 10 0 0 1 True, 20 \<mapsto> mk_record 20 19 10 11 True],
      heights_in_cache = [0 \<mapsto> {10}, 10 \<mapsto> {20}],
      height_map = [0 \<mapsto> (10, None), 10 \<mapsto> (20, None)],
      block_store = \<lparr>rows = Map.empty, in_main_chain = {10, 20}, store_peak = Some 20\<rparr>\<rparr>"

definition blockchain_gap :: Blockchain where
  "blockchain_gap =
     \<lparr>constants = constants_1\<lparr>BLOCKS_CACHE_SIZE := 1\<rparr>, execution_client = client_valid,
      peak_height = Some 3,
      block_records = [10 \<mapsto> mk_record 10 0 0 1 True, 12 \<mapsto> mk_record 12 11 2 3 True,
                       13 \<mapsto> mk_record 13 12 3 4 True],
      heights_in_cache = [0 \<mapsto> {10}, 2 \<mapsto> {12}, 3 \<mapsto> {13}],
      height_map = [0 \<mapsto> (10, None), 2 \<mapsto> (12, None), 3 \<mapsto> (13, None)],
      block_store = \<lparr>rows = Map.empty, in_main_chain = {10, 12, 13}, store_peak = Some 13\<rparr>\<rparr>"

definition blockchain_small_cache :: Blockchain where
  "blockchain_small_cache = blockchain_1\<lparr>constants := constants_1\<lparr>BLOCKS_CACHE_SIZE := 1\<rparr>\<rparr>"

definition blockchain_0 :: Blockchain where
  "blockchain_0 =
     \<lparr>constants = constants_1, execution_client = client_valid, peak_height = None,
      block_records = Map.empty, heights_in_cache = Map.empty, height_map = Map.empty,
      block_store = \<lparr>rows = Map.empty, in_main_chain = {}, store_peak = None\<rparr>\<rparr>"

definition nth_record :: "nat \<Rightarrow> BlockRecord" where
  "nth_record i = mk_record (1000 + i) (999 + i) i (i + 1) True"

definition records_upto :: "nat \<Rightarrow> BlockRecord list" where
  "records_upto n = map nth_record [0..<n]"

text \<open>
  A chain of one record that is the first in its sub-slot and closes five finished
  sub-slots.
\<close>

definition record_slots :: BlockRecord where
  "record_slots = (mk_record 10 0 0 1 True)
     \<lparr>total_iters := 10000, first_in_sub_slot := True,
      finished_reward_slot_hashes := Some [1, 2, 3, 4, 5]\<rparr>"

definition blockchain_slots :: Blockchain where
  "blockchain_slots =
     \<lparr>constants = constants_1, execution_client = client_valid, peak_height = Some 0,
      block_records = [10 \<mapsto> record_slots],
      heights_in_cache = [0 \<mapsto> {10}],
      height_map = [0 \<mapsto> (10, None)],
      block_store = \<lparr>rows = [10 \<mapsto> (mk_full_block 10 0 0 1 None, record_slots)],
                      in_main_chain = {10}, store_peak = Some 10\<rparr>\<rparr>"

text \<open>
  A chain of three records. Genesis and the peak are each the first in their sub-slot,
  with two finished reward slot hashes; the sub-slot of genesis has room for one of them.
\<close>

definition record_first :: BlockRecord where
  "record_first = (mk_record 10 0 0 1 True)
     \<lparr>first_in_sub_slot := True, finished_reward_slot_hashes := Some [1, 9]\<rparr>"

definition record_middle :: BlockRecord where
  "record_middle = mk_record 11 10 1 2 True"

definition record_peak :: BlockRecord where
  "record_peak = (mk_record 12 11 2 3 True)
     \<lparr>first_in_sub_slot := True, finished_reward_slot_hashes := Some [2, 3]\<rparr>"

definition blockchain_3 :: Blockchain where
  "blockchain_3 =
     \<lparr>constants = constants_1, execution_client = client_valid, peak_height = Some 2,
      block_records = [10 \<mapsto> record_first, 11 \<mapsto> record_middle, 12 \<mapsto> record_peak],
      heights_in_cache = [0 \<mapsto> {10}, 1 \<mapsto> {11}, 2 \<mapsto> {12}],
      height_map = [0 \<mapsto> (10, None), 1 \<mapsto> (11, None), 2 \<mapsto> (12, None)],
      block_store =
        \<lparr>rows = [10 \<mapsto> (mk_full_block 10 0 0 1 None, record_first),
                 11 \<mapsto> (mk_full_block 11 10 1 2 None, record_middle),
                 12 \<mapsto> (mk_full_block 12 11 2 3 None, record_peak)],
         in_main_chain = {10, 11, 12}, store_peak = Some 12\<rparr>\<rparr>"

text \<open>
  Collaborators for pre-validation. The proof of space of every block verifies, or of
  every block but those at height 1; the record of a block is built, or building it
  raises \<open>ValueError\<close> for a block with finished sub-slots, as
  \<open>block_to_block_record\<close> does on a sub-epoch summary hash that does not match.
\<close>

definition ssi_diff_1 :: "ConsensusConstants \<Rightarrow> bool \<Rightarrow> BlockRecord option \<Rightarrow> BlockCache \<Rightarrow> nat \<times> nat" where
  "ssi_diff_1 C new_slot prev_b m = (1000, 1)"

definition quality_ok :: "ConsensusConstants \<Rightarrow> FullBlock \<Rightarrow> BlockCache \<Rightarrow> bool \<Rightarrow> bytes32 option" where
  "quality_ok C block recent genesis = Some 7"

definition quality_bad_at_1 :: "ConsensusConstants \<Rightarrow> FullBlock \<Rightarrow> BlockCache \<Rightarrow> bool \<Rightarrow> bytes32 option" where
  "quality_bad_at_1 C block recent genesis = (if fb_height block = 1 then None else Some 7)"

definition iters_1 :: "ConsensusConstants \<Rightarrow> bytes32 \<Rightarrow> FullBlock \<Rightarrow> nat \<Rightarrow> nat" where
  "iters_1 C q block difficulty = 5"

definition pv_b2r_ok :: "ConsensusConstants \<Rightarrow> BlockCache \<Rightarrow> nat \<Rightarrow> FullBlock \<Rightarrow> nat \<Rightarrow> exn + BlockRecord" where
  "pv_b2r_ok C m ri block ssi =
     Inr (mk_record (fb_header_hash block) (fb_prev_header_hash block) (fb_height block)
            (fb_weight block) True)"

definition pv_b2r_ses_fails :: "ConsensusConstants \<Rightarrow> BlockCache \<Rightarrow> nat \<Rightarrow> FullBlock \<Rightarrow> nat \<Rightarrow> exn + BlockRecord" where
  "pv_b2r_ses_fails C m ri block ssi =
     (if fb_finished_sub_slots block = 0 then pv_b2r_ok C m ri block ssi else Inl ValueError)"

definition ses_hash_1 :: "SubEpochSummary \<Rightarrow> bytes32" where
  "ses_hash_1 ses = ses"

fun err_value_1 :: "Err \<Rightarrow> nat" where
  "err_value_1 UNKNOWN = 1"
| "err_value_1 INVALID_PREV_BLOCK_HASH = 2"
| "err_value_1 INVALID_HEIGHT = 3"
| "err_value_1 INVALID_POSPACE = 4"
| "err_value_1 INVALID_SUB_EPOCH_SUMMARY = 5"
| "err_value_1 PAYLOAD_INVALIDATED = 6"
| "err_value_1 PAYLOAD_NOT_VALIDATED = 7"
| "err_value_1 (OTHER_ERR c) = c"

definition batches_ok ::
  "ConsensusConstants \<Rightarrow> BlockCache \<Rightarrow> BlockCache \<Rightarrow> FullBlock list \<Rightarrow> nat \<Rightarrow> (nat \<times> nat) list
   \<Rightarrow> exn + PreValidationResult list" where
  "batches_ok C recent compressed blocks batch_size diff_ssis = Inr (replicate (length blocks) pre_ok)"

definition pv_ses_fails :: PreValidation where
  "pv_ses_fails =
     \<lparr>get_next_sub_slot_iters_and_difficulty = ssi_diff_1, quality_string = quality_ok,
      calculate_iterations_quality = iters_1, pv_block_to_block_record = pv_b2r_ses_fails,
      ses_get_hash = ses_hash_1, err_value = err_value_1, run_batches = batches_ok\<rparr>"

definition pv_pospace_fails :: PreValidation where
  "pv_pospace_fails =
     \<lparr>get_next_sub_slot_iters_and_difficulty = ssi_diff_1, quality_string = quality_bad_at_1,
      calculate_iterations_quality = iters_1, pv_block_to_block_record = pv_b2r_ok,
      ses_get_hash = ses_hash_1, err_value = err_value_1, run_batches = batches_ok\<rparr>"

text \<open>
  A genesis block and its child, which closes a sub-slot; neither of them is known to the
  view.
\<close>

definition two_blocks :: "FullBlock list" where
  "two_blocks =
     [mk_full_block 10 0 0 1 None, (mk_full_block 11 10 1 2 None)\<lparr>fb_finished_sub_slots := 1\<rparr>]"

text \<open>The genesis block twice in one list.\<close>

definition repeated_block :: "FullBlock list" where
  "repeated_block = [mk_full_block 10 0 0 1 None, mk_full_block 10 0 0 1 None]"

section \<open>Theorems\<close>

subsection \<open>Reward schedule\<close>

text \<open>
  C4. For every height \<open>h\<close> the block reward is \<open>2 * 10^9\<close> below \<open>3Y\<close>, \<open>10^9\<close> from
  \<open>3Y\<close> up to \<open>6Y\<close>, \<open>5 * 10^8\<close> from \<open>6Y\<close> up to \<open>9Y\<close>, \<open>25 * 10^7\<close> from \<open>9Y\<close> up to
  \<open>12Y\<close>, \<open>125 * 10^6\<close> from \<open>12Y\<close> up to \<open>15Y\<close> and \<open>0\<close> from \<open>15Y\<close> on, where
  \<open>Y = 4608 * 2 * 365\<close>; at \<open>h = 3Y - 1\<close> it is \<open>2 * 10^9\<close> and at \<open>h = 3Y\<close> it is
  \<open>10^9\<close>.
\<close>

theorem reward_schedule:
  "blocks_per_year = 4608 * 2 * 365
   \<and> (h < 3 * blocks_per_year \<longrightarrow> calculate_block_reward h = 2 * 10 ^ 9)
   \<and> (3 * blocks_per_year \<le> h \<and> h < 6 * blocks_per_year \<longrightarrow> calculate_block_reward h = 10 ^ 9)
   \<and> (6 * blocks_per_year \<le> h \<and> h < 9 * blocks_per_year \<longrightarrow> calculate_block_reward h = 5 * 10 ^ 8)
   \<and> (9 * blocks_per_year \<le> h \<and> h < 12 * blocks_per_year \<longrightarrow> calculate_block_reward h = 25 * 10 ^ 7)
   \<and> (12 * blocks_per_year \<le> h \<and> h < 15 * blocks_per_year \<longrightarrow> calculate_block_reward h = 125 * 10 ^ 6)
   \<and> (15 * blocks_per_year \<le> h \<longrightarrow> calculate_block_reward h = 0)
   \<and> calculate_block_reward (3 * blocks_per_year - 1) = 2 * 10 ^ 9
   \<and> calculate_block_reward (3 * blocks_per_year) = 10 ^ 9"
  by (simp add: calculate_block_reward_def blocks_per_year_def corpochain_to_gwei_def)

theorem reward_schedule_witness:
  "calculate_block_reward 0 = 2000000000
   \<and> calculate_block_reward 10091520 = 1000000000
   \<and> calculate_block_reward 20183040 = 500000000
   \<and> calculate_block_reward 30274560 = 250000000
   \<and> calculate_block_reward 40366080 = 125000000
   \<and> calculate_block_reward 50457600 = 0"
  using reward_schedule [of 0] reward_schedule [of 10091520] reward_schedule [of 20183040]
    reward_schedule [of 30274560] reward_schedule [of 40366080] reward_schedule [of 50457600]
  by (simp add: blocks_per_year_def)

subsection \<open>Body validation\<close>

text \<open>
  C2, as the code has it. The claim leaves out the two assertions of
  \<open>validate_block_body\<close>: a full block must be passed with \<open>height == block.height\<close>,
  and with a block record once \<open>new_payload\<close> has not settled the verdict. At a full
  block passed without a record the function raises after \<open>new_payload\<close> answered
  \<open>VALID\<close> and \<open>forkchoice_update\<close> is never consulted; at a full block passed with
  another height it raises before \<open>new_payload\<close> is called.
\<close>

theorem body_policy_counterexample:
  "execution_payload (Full (full_block_1 (Some 5))) = Some 5
   \<and> fst (new_payload client_valid 5) = ''VALID''
   \<and> validate_block_body client_valid (Full (full_block_1 (Some 5))) 1 None
       = (Inl AssertionError, client_valid\<lparr>calls := [NewPayload 5]\<rparr>)
   \<and> fst (new_payload client_invalid 5) = ''INVALID''
   \<and> validate_block_body client_invalid (Full (full_block_1 (Some 5))) 2 (Some (mk_record 11 10 1 2 True))
       = (Inl AssertionError, client_invalid)"
  by (simp add: validate_block_body_def validate_block_body_forkchoice_def full_block_1_def
      new_payload_def client_valid_def client_invalid_def answer_valid_def answer_invalid_def)

text \<open>
  C2 (amended). Let a block carry an execution payload and let \<open>np\<close> be the status
  \<open>new_payload\<close> answers. For an unfinished block the verdict is the policy's:
  \<open>INVALID\<close> or \<open>INVALID_BLOCK_HASH\<close> gives \<open>PAYLOAD_INVALIDATED\<close>, \<open>SYNCING\<close> or
  \<open>ACCEPTED\<close> gives \<open>PAYLOAD_NOT_VALIDATED\<close>, \<open>VALID\<close> gives \<open>None\<close>, anything else
  \<open>UNKNOWN\<close>. For a full block passed with its own height: \<open>INVALID\<close> or
  \<open>INVALID_BLOCK_HASH\<close> gives \<open>PAYLOAD_INVALIDATED\<close>, an unrecognised status gives
  \<open>UNKNOWN\<close>, and otherwise, when a block record is passed, the verdict is the policy's
  for the status of \<open>forkchoice_update\<close>: \<open>INVALID\<close> or \<open>INVALID_BLOCK_HASH\<close> gives
  \<open>PAYLOAD_INVALIDATED\<close>, \<open>SYNCING\<close> or \<open>ACCEPTED\<close> gives \<open>None\<close> if
  \<open>optimistic_import\<close> is enabled and \<open>PAYLOAD_NOT_VALIDATED\<close> if not, \<open>VALID\<close> gives
  \<open>None\<close>, anything else \<open>UNKNOWN\<close>.
\<close>

theorem body_policy:
  assumes "execution_payload block = Some p"
    and "np = fst (new_payload ec p)"
    and "ec1 = snd (new_payload ec p)"
  shows "(\<forall>u. block = Unfinished u \<longrightarrow>
            fst (validate_block_body ec block h br) = Inr (policy_unfinished np))
    \<and> (\<forall>f. block = Full f \<and> h = fb_height f \<longrightarrow>
          (np \<in> {''INVALID'', ''INVALID_BLOCK_HASH''} \<longrightarrow>
             fst (validate_block_body ec block h br) = Inr (Some PAYLOAD_INVALIDATED))
        \<and> (np \<notin> {''INVALID'', ''INVALID_BLOCK_HASH'', ''SYNCING'', ''ACCEPTED'', ''VALID''} \<longrightarrow>
             fst (validate_block_body ec block h br) = Inr (Some UNKNOWN))
        \<and> (np \<in> {''SYNCING'', ''ACCEPTED'', ''VALID''} \<longrightarrow>
             (\<forall>r. br = Some r \<longrightarrow>
                fst (validate_block_body ec block h br) =
                  Inr (policy_forkchoice (optimistic_import ec) (fst (forkchoice_update ec1 r))))))"
  using assms
  by (cases block)
     (auto simp: validate_block_body_def validate_block_body_forkchoice_def policy_unfinished_def
        policy_forkchoice_def optimistic_import_def new_payload_def forkchoice_update_def Let_def
        split: prod.splits option.splits)

theorem body_policy_witness:
  "fst (validate_block_body (client_syncing False) (Unfinished (unfinished_block_1 (Some 5))) 1 None)
     = Inr (Some PAYLOAD_NOT_VALIDATED)
   \<and> fst (validate_block_body (client_syncing False) (Full (full_block_1 (Some 5))) 1
            (Some (mk_record 11 10 1 2 True)))
     = Inr (Some PAYLOAD_NOT_VALIDATED)
   \<and> fst (validate_block_body (client_syncing True) (Full (full_block_1 (Some 5))) 1
            (Some (mk_record 11 10 1 2 True)))
     = Inr None
   \<and> fst (validate_block_body client_invalid (Full (full_block_1 (Some 5))) 1 None)
     = Inr (Some PAYLOAD_INVALIDATED)"
  using
    body_policy [of "Unfinished (unfinished_block_1 (Some 5))" 5 "''SYNCING''" "client_syncing False"
      "snd (new_payload (client_syncing False) 5)" 1 None]
    body_policy [of "Full (full_block_1 (Some 5))" 5 "''SYNCING''" "client_syncing False"
      "snd (new_payload (client_syncing False) 5)" 1 "Some (mk_record 11 10 1 2 True)"]
    body_policy [of "Full (full_block_1 (Some 5))" 5 "''SYNCING''" "client_syncing True"
      "snd (new_payload (client_syncing True) 5)" 1 "Some (mk_record 11 10 1 2 True)"]
    body_policy [of "Full (full_block_1 (Some 5))" 5 "''INVALID''" client_invalid
      "snd (new_payload client_invalid 5)" 1 None]
  by (simp add: full_block_1_def unfinished_block_1_def new_payload_def forkchoice_update_def
      client_syncing_def client_invalid_def answer_syncing_def answer_invalid_def
      policy_unfinished_def policy_forkchoice_def optimistic_import_def)

text \<open>
  C10, as the code has it. A full block without a payload, passed with a height other
  than its own, is not accepted: the assertion at the head of \<open>validate_block_body\<close>
  fails before the payload is looked at.
\<close>

theorem payloadless_counterexample:
  "execution_payload (Full (full_block_1 None)) = None
   \<and> fst (validate_block_body client_valid (Full (full_block_1 None)) 2 None) = Inl AssertionError"
  by (simp add: validate_block_body_def full_block_1_def)

text \<open>
  C10 (amended). For every block whose execution payload is \<open>None\<close>,
  \<open>validate_block_body\<close> makes no call to the execution client and never returns an
  error code; and whenever the block is an unfinished block, or a full block passed with
  its own height, it returns \<open>None\<close>.
\<close>

theorem payloadless_block:
  assumes "execution_payload block = None"
  shows "snd (validate_block_body ec block h br) = ec
    \<and> (\<forall>e. fst (validate_block_body ec block h br) \<noteq> Inr (Some e))
    \<and> ((\<forall>f. block = Full f \<longrightarrow> h = fb_height f) \<longrightarrow>
         validate_block_body ec block h br = (Inr None, ec))"
  using assms by (cases block) (simp_all add: validate_block_body_def)

theorem payloadless_block_witness:
  "validate_block_body client_invalid (Full (full_block_1 None)) 1 None = (Inr None, client_invalid)
   \<and> validate_block_body client_invalid (Unfinished (unfinished_block_1 None)) 7 None
       = (Inr None, client_invalid)"
  using payloadless_block [of "Full (full_block_1 None)" client_invalid 1 None]
    payloadless_block [of "Unfinished (unfinished_block_1 None)" client_invalid 7 None]
  by (simp add: full_block_1_def unfinished_block_1_def)

subsection \<open>Withdrawals\<close>

lemma block_rewards_loop_walk:
  "reward_walk C blocks (c # cs) \<Longrightarrow>
   block_rewards_loop C blocks c i ws = Some (Inr (ws @ reward_withdrawals i (c # cs)))"
proof (induction cs arbitrary: c i ws)
  case Nil
  then show ?case
    by (subst block_rewards_loop.simps) (auto simp: Let_def split: option.splits)
next
  case (Cons d ds)
  from Cons.prems have step: "prev_hash c \<noteq> GENESIS_CHALLENGE C"
    "blocks (prev_hash c) = Some d" "\<not> is_transaction_block d"
    and rest: "reward_walk C blocks (d # ds)"
    by simp_all
  show ?case
    by (subst block_rewards_loop.simps) (simp add: step Cons.IH [OF rest] Let_def)
qed

text \<open>
  C3. Let \<open>prev # cs\<close> be the walk from the previous transaction block: each next
  record is the cached parent of the one before and is not a transaction block, and the
  last record has the genesis challenge as \<open>prev_hash\<close> or a transaction block as
  parent. Then \<open>create_withdrawals\<close> returns, numbered from
  \<open>last_withdrawal_index + 1\<close> (from 0 when there is none): the prefarm withdrawal
  (type 0, \<open>PREFARM_ADDRESS\<close>, \<open>PREFARM_AMOUNT * 10^9\<close>) first when the height of
  \<open>prev\<close> is 0, then one type-1 withdrawal (coinbase, reward of the height) for
  \<open>prev\<close> and for each record of the walk, and nothing for the transaction block that
  ends the walk.
\<close>

theorem create_withdrawals_walk:
  assumes "reward_walk C blocks (prev # cs)"
    and "first = (case last_withdrawal_index prev of None \<Rightarrow> 0 | Some i \<Rightarrow> i + 1)"
  shows "create_withdrawals C prev blocks =
     Some (Inr (if height prev = 0
                then \<lparr>wd_index = first, wd_validator_index = 0, wd_address = PREFARM_ADDRESS C,
                       wd_amount = PREFARM_AMOUNT C * 10 ^ 9\<rparr>
                     # reward_withdrawals (first + 1) (prev # cs)
                else reward_withdrawals first (prev # cs)))"
  using assms(2) block_rewards_loop_walk [OF assms(1)]
  by (simp add: create_withdrawals_def corpochain_to_gwei_def Let_def)

theorem create_withdrawals_walk_witness:
  "create_withdrawals constants_1 (mk_record 10 0 0 1 True) chain_1 =
     Some (Inr [\<lparr>wd_index = 0, wd_validator_index = 0, wd_address = 99, wd_amount = 21000000000000000\<rparr>,
                \<lparr>wd_index = 1, wd_validator_index = 1, wd_address = 510, wd_amount = 2000000000\<rparr>])
   \<and> create_withdrawals constants_1 ((mk_record 13 12 3 4 True)\<lparr>last_withdrawal_index := Some 4\<rparr>) chain_1 =
     Some (Inr [\<lparr>wd_index = 5, wd_validator_index = 1, wd_address = 513, wd_amount = 2000000000\<rparr>,
                \<lparr>wd_index = 6, wd_validator_index = 1, wd_address = 512, wd_amount = 2000000000\<rparr>,
                \<lparr>wd_index = 7, wd_validator_index = 1, wd_address = 511, wd_amount = 2000000000\<rparr>])"
  using create_withdrawals_walk [of constants_1 chain_1 "mk_record 10 0 0 1 True" "[]" 0]
    create_withdrawals_walk [of constants_1 chain_1
      "(mk_record 13 12 3 4 True)\<lparr>last_withdrawal_index := Some 4\<rparr>"
      "[mk_record 12 11 2 3 False, mk_record 11 10 1 2 False]" 5]
  by (simp add: constants_1_def chain_1_def mk_record_def calculate_block_reward_def
      blocks_per_year_def corpochain_to_gwei_def)

subsection \<open>Receiving a block\<close>

lemmas concrete_defs = blockchain_1_def mk_full_block_def mk_record_def pre_ok_def env_1_def
  err_of_1_def b2r_1_def no_fork_point_def constants_1_def client_valid_def answer_valid_def

lemmas chain_defs = receive_block_def contains_block_def block_record_def validate_block_body_def
  validate_block_body_forkchoice_def new_payload_def forkchoice_update_def optimistic_import_def
  reconsider_peak_def get_peak_def height_to_block_record_def height_to_hash_def
  hm_contains_height_def hm_get_hash_def get_full_block_def get_block_record_def add_full_block_def

lemma block_records_apply_records:
  "block_records (apply_records bc r records s) = (block_records bc)(header_hash r \<mapsto> r)"
  by (simp add: apply_records_def add_block_record_def Let_def split: option.splits)

lemma apply_records_orphan:
  "apply_records bc r [] None = add_block_record bc r"
  by (simp add: apply_records_def Let_def)

lemma get_peak_frame:
  "peak_height a = peak_height b \<Longrightarrow> height_map a = height_map b
   \<Longrightarrow> block_records a = block_records b \<Longrightarrow> get_peak a = get_peak b"
  by (simp add: get_peak_def height_to_block_record_def height_to_hash_def block_record_def
      split: option.splits)

text \<open>
  C1. For every call of \<open>receive_block\<close> the checks before insertion run in this order:
  a block whose header hash is in the record cache gives \<open>ALREADY_HAVE_BLOCK\<close> with no
  error; else a block that is not genesis and whose parent hash is not in the cache gives
  \<open>DISCONNECTED_BLOCK\<close> with \<open>INVALID_PREV_BLOCK_HASH\<close>; else a block that is not
  genesis and whose height is not the parent's plus one gives \<open>INVALID_BLOCK\<close> with
  \<open>INVALID_HEIGHT\<close>; else a pre-validation result that carries an error code gives
  \<open>INVALID_BLOCK\<close> with the error \<open>Err\<close> has for that code. In all four cases no
  state change summary is returned and the chain, store and cache included, is returned
  as it was.
\<close>

theorem receive_block_pre_insertion_checks:
  "(contains_block bc (fb_header_hash block) \<longrightarrow>
      receive_block env bc block pre fp = Some (bc, Inr (ALREADY_HAVE_BLOCK, None, None)))
   \<and> (\<not> contains_block bc (fb_header_hash block) \<and> fb_height block \<noteq> 0
        \<and> \<not> contains_block bc (fb_prev_header_hash block) \<longrightarrow>
      receive_block env bc block pre fp
        = Some (bc, Inr (DISCONNECTED_BLOCK, Some INVALID_PREV_BLOCK_HASH, None)))
   \<and> (\<forall>parent. \<not> contains_block bc (fb_header_hash block) \<and> fb_height block \<noteq> 0
        \<and> block_records bc (fb_prev_header_hash block) = Some parent
        \<and> height parent + 1 \<noteq> fb_height block \<longrightarrow>
      receive_block env bc block pre fp = Some (bc, Inr (INVALID_BLOCK, Some INVALID_HEIGHT, None)))
   \<and> (\<forall>c e. \<not> contains_block bc (fb_header_hash block)
        \<and> (fb_height block = 0
            \<or> (\<exists>parent. block_records bc (fb_prev_header_hash block) = Some parent
                  \<and> height parent + 1 = fb_height block))
        \<and> pv_error pre = Some c \<and> Err_of_value env c = Some e \<longrightarrow>
      receive_block env bc block pre fp = Some (bc, Inr (INVALID_BLOCK, Some e, None)))"
  by (auto simp: receive_block_def contains_block_def block_record_def Let_def)

theorem receive_block_pre_insertion_checks_witness:
  "receive_block env_1 blockchain_1 (mk_full_block 11 10 1 3 None) pre_ok None
     = Some (blockchain_1, Inr (ALREADY_HAVE_BLOCK, None, None))
   \<and> receive_block env_1 blockchain_1 (mk_full_block 31 30 4 9 None) pre_ok None
     = Some (blockchain_1, Inr (DISCONNECTED_BLOCK, Some INVALID_PREV_BLOCK_HASH, None))
   \<and> receive_block env_1 blockchain_1 (mk_full_block 21 10 5 9 None) pre_ok None
     = Some (blockchain_1, Inr (INVALID_BLOCK, Some INVALID_HEIGHT, None))
   \<and> receive_block env_1 blockchain_1 (mk_full_block 21 10 1 9 None) pre_failed None
     = Some (blockchain_1, Inr (INVALID_BLOCK, Some (OTHER_ERR 7), None))"
  using receive_block_pre_insertion_checks [of blockchain_1 "mk_full_block 11 10 1 3 None" env_1 pre_ok None]
    receive_block_pre_insertion_checks [of blockchain_1 "mk_full_block 31 30 4 9 None" env_1 pre_ok None]
    receive_block_pre_insertion_checks [of blockchain_1 "mk_full_block 21 10 5 9 None" env_1 pre_ok None]
    receive_block_pre_insertion_checks [of blockchain_1 "mk_full_block 21 10 1 9 None" env_1 pre_failed None]
  by (simp add: contains_block_def blockchain_1_def mk_full_block_def mk_record_def pre_failed_def
      env_1_def err_of_1_def)

text \<open>
  C5. Let a block that is not genesis pass the checks before insertion (its hash is not
  cached, its parent is cached one height below, pre-validation left no error and gave
  the required iterations, the block record is built) and body validation, and let the
  weight of its record be at most the weight of the current peak. Then \<open>receive_block\<close>
  returns \<open>ADDED_AS_ORPHAN\<close> with no error and no state change summary, and leaves the
  peak of the store, the \<open>_peak_height\<close> cursor, the in-chain markings and the height map
  as they were: the block is written to the store and its record to the cache, nothing
  else. When the record carries the block's header hash, the peak record is the same
  after the call.
\<close>

theorem orphan_block:
  assumes "fb_height block \<noteq> 0"
    and "\<not> contains_block bc (fb_header_hash block)"
    and "block_records bc (fb_prev_header_hash block) = Some parent"
    and "height parent + 1 = fb_height block"
    and "pv_error pre = None"
    and "pv_required_iters pre = Some ri"
    and "block_to_block_record env bc ri block = Inr r"
    and "validate_block_body (execution_client bc) (Full block) (fb_height block) (Some r) = (Inr None, ec)"
    and "get_peak bc = Inr (Some peak)"
    and "weight r \<le> weight peak"
    and "bc' = add_block_record
           (bc\<lparr>execution_client := ec,
               block_store := add_full_block (fb_header_hash block) block r (block_store bc)\<rparr>) r"
  shows "receive_block env bc block pre fp = Some (bc', Inr (ADDED_AS_ORPHAN, None, None))
    \<and> store_peak (block_store bc') = store_peak (block_store bc)
    \<and> peak_height bc' = peak_height bc
    \<and> in_main_chain (block_store bc') = in_main_chain (block_store bc)
    \<and> height_map bc' = height_map bc
    \<and> rows (block_store bc') = (rows (block_store bc))(fb_header_hash block \<mapsto> (block, r))
    \<and> block_records bc' = (block_records bc)(header_hash r \<mapsto> r)
    \<and> (header_hash r = fb_header_hash block \<longrightarrow> get_peak bc' = Inr (Some peak))"
proof -
  let ?bc1 = "bc\<lparr>execution_client := ec,
      block_store := add_full_block (fb_header_hash block) block r (block_store bc)\<rparr>"
  have peak1: "get_peak ?bc1 = Inr (Some peak)"
    using assms(9) get_peak_frame [of ?bc1 bc] by simp
  have rp: "reconsider_peak env ?bc1 r False fp = Some (Inr ([], None, ?bc1))"
    using assms(10) by (simp add: reconsider_peak_def peak1)
  have run: "receive_block env bc block pre fp = Some (bc', Inr (ADDED_AS_ORPHAN, None, None))"
    using assms(1-8) rp
    by (simp add: receive_block_def contains_block_def block_record_def Let_def
        apply_records_orphan assms(11))
  have frame: "store_peak (block_store bc') = store_peak (block_store bc)"
    "peak_height bc' = peak_height bc"
    "in_main_chain (block_store bc') = in_main_chain (block_store bc)"
    "height_map bc' = height_map bc"
    "rows (block_store bc') = (rows (block_store bc))(fb_header_hash block \<mapsto> (block, r))"
    "block_records bc' = (block_records bc)(header_hash r \<mapsto> r)"
    by (simp_all add: assms(11) add_block_record_def add_full_block_def)
  have keep: "get_peak bc' = Inr (Some peak)" if "header_hash r = fb_header_hash block"
    using assms(9) assms(2) that frame(2,4,6)
    by (auto simp: get_peak_def height_to_block_record_def height_to_hash_def block_record_def
        contains_block_def split: option.splits if_splits)
  show ?thesis using run frame keep by blast
qed

theorem orphan_block_witness:
  "receive_block env_1 blockchain_1 block_1_sibling pre_ok None
     = Some (add_block_record
               (blockchain_1\<lparr>execution_client :=
                   client_valid\<lparr>calls := [NewPayload 8, ForkchoiceUpdate (mk_record 21 10 1 2 True)]\<rparr>,
                 block_store := add_full_block 21 block_1_sibling (mk_record 21 10 1 2 True)
                   (block_store blockchain_1)\<rparr>)
               (mk_record 21 10 1 2 True),
             Inr (ADDED_AS_ORPHAN, None, None))"
  using orphan_block [of block_1_sibling blockchain_1 "mk_record 10 0 0 1 True" pre_ok 5 env_1
      "mk_record 21 10 1 2 True"
      "client_valid\<lparr>calls := [NewPayload 8, ForkchoiceUpdate (mk_record 21 10 1 2 True)]\<rparr>"
      "mk_record 11 10 1 3 True" _ None, OF _ _ _ _ _ _ _ _ _ _ refl]
  by (simp add: chain_defs concrete_defs block_1_sibling_def)

text \<open>
  C6. Let \<open>receive_block\<close> accept a block as the new peak, with a block record that
  carries the block's header hash. Then a second call with the same arguments, on the
  chain the first call left, returns \<open>ALREADY_HAVE_BLOCK\<close> with no error and returns
  that chain as it is: the store, the record cache, the height map and the peak are not
  changed.
\<close>

theorem receive_block_twice:
  assumes "receive_block env bc block pre fp = Some (bc', Inr (NEW_PEAK, e, s))"
    and "\<forall>ri r. block_to_block_record env bc ri block = Inr r \<longrightarrow> header_hash r = fb_header_hash block"
  shows "receive_block env bc' block pre fp = Some (bc', Inr (ALREADY_HAVE_BLOCK, None, None))"
proof -
  have "contains_block bc' (fb_header_hash block)"
    using assms
    by (auto simp: receive_block_def Let_def contains_block_def block_records_apply_records
        split: if_splits sum.splits bool.splits option.splits prod.splits)
  then show ?thesis by (simp add: receive_block_def)
qed

theorem receive_block_twice_witness:
  "receive_block env_1 blockchain_1 block_2 pre_ok None
     = Some (blockchain_2,
         Inr (NEW_PEAK, None, Some \<lparr>scs_peak = mk_record 12 11 2 5 True, scs_fork_height = 1\<rparr>))
   \<and> receive_block env_1 blockchain_2 block_2 pre_ok None
     = Some (blockchain_2, Inr (ALREADY_HAVE_BLOCK, None, None))"
proof -
  have first: "receive_block env_1 blockchain_1 block_2 pre_ok None
     = Some (blockchain_2,
         Inr (NEW_PEAK, None, Some \<lparr>scs_peak = mk_record 12 11 2 5 True, scs_fork_height = 1\<rparr>))"
    unfolding blockchain_2_def
    by (simp add: chain_defs concrete_defs block_2_def blocks_to_add_loop.simps Let_def)
  have hash: "\<forall>ri r. block_to_block_record env_1 blockchain_1 ri block_2 = Inr r
      \<longrightarrow> header_hash r = fb_header_hash block_2"
    by (simp add: concrete_defs block_2_def)
  from receive_block_twice [OF first hash] first show ?thesis by simp
qed

subsection \<open>Cache cleaning\<close>

lemma loop_unfold:
  "clean_block_record_loop bc h =
     (case heights_in_cache bc h of
        None \<Rightarrow> Inr bc
      | Some s \<Rightarrow>
          if \<exists>hh \<in> s. block_records bc hh = None then Inl KeyError
          else if h = 0 then Inr (remove_height bc h s)
          else clean_block_record_loop (remove_height bc h s) (h - 1))"
  by (subst clean_block_record_loop.simps) (simp add: remove_height_def Let_def cong: option.case_cong if_cong)

lemma remove_height_fields:
  "block_records (remove_height bc h s) hh = (if hh \<in> s then None else block_records bc hh)"
  "heights_in_cache (remove_height bc h s) k = (if k = h then None else heights_in_cache bc k)"
  "peak_height (remove_height bc h s) = peak_height bc"
  "constants (remove_height bc h s) = constants bc"
  by (simp_all add: remove_height_def)

lemma remove_height_consistent:
  assumes ic: "index_consistent bc" and hs: "heights_in_cache bc h = Some s"
  shows "index_consistent (remove_height bc h s)"
  unfolding index_consistent_def
proof (intro conjI allI impI)
  fix hh r
  assume a: "block_records (remove_height bc h s) hh = Some r"
  then have notin: "hh \<notin> s" and br: "block_records bc hh = Some r"
    by (simp_all add: remove_height_fields split: if_splits)
  from ic br obtain s' where s': "heights_in_cache bc (height r) = Some s'" "hh \<in> s'"
    unfolding index_consistent_def by blast
  have "height r \<noteq> h" using s' hs notin by auto
  then show "\<exists>t. heights_in_cache (remove_height bc h s) (height r) = Some t \<and> hh \<in> t"
    using s' by (simp add: remove_height_fields)
next
  fix k s' hh
  assume a: "heights_in_cache (remove_height bc h s) k = Some s' \<and> hh \<in> s'"
  then have kh: "k \<noteq> h" and ks: "heights_in_cache bc k = Some s'" and mem: "hh \<in> s'"
    by (simp_all add: remove_height_fields split: if_splits)
  from ic ks mem obtain r where r: "block_records bc hh = Some r" "height r = k"
    unfolding index_consistent_def by blast
  have "hh \<notin> s"
  proof
    assume "hh \<in> s"
    with ic hs obtain r' where "block_records bc hh = Some r'" "height r' = h"
      unfolding index_consistent_def by blast
    with r kh show False by simp
  qed
  then show "\<exists>r. block_records (remove_height bc h s) hh = Some r \<and> height r = k"
    using r by (simp add: remove_height_fields)
qed

lemma indexed_height:
  assumes "index_consistent bc" and "block_records bc hh = Some r"
  shows "\<exists>t. heights_in_cache bc (height r) = Some t \<and> hh \<in> t"
  using assms unfolding index_consistent_def by blast

lemma listed_record:
  assumes "index_consistent bc" and "heights_in_cache bc h = Some s" and "hh \<in> s"
  shows "\<exists>r. block_records bc hh = Some r \<and> height r = h"
  using assms unfolding index_consistent_def by blast

lemma listed_iff:
  assumes ic: "index_consistent bc" and hs: "heights_in_cache bc h = Some s"
    and br: "block_records bc hh = Some r"
  shows "hh \<in> s \<longleftrightarrow> height r = h"
proof
  assume "hh \<in> s"
  from listed_record [OF ic hs this] br show "height r = h" by auto
next
  assume "height r = h"
  with indexed_height [OF ic br] hs show "hh \<in> s" by auto
qed

lemma listed_all_cached:
  assumes "index_consistent bc" and "heights_in_cache bc h = Some s"
  shows "\<not> (\<exists>hh \<in> s. block_records bc hh = None)"
proof
  assume "\<exists>hh \<in> s. block_records bc hh = None"
  then obtain hh where "hh \<in> s" "block_records bc hh = None" by blast
  with listed_record [OF assms, of hh] show False by auto
qed


lemma cleaned_stop:
  assumes ic: "index_consistent bc" and none: "heights_in_cache bc h = None"
  shows "cleaned bc h bc"
proof -
  have "block_records bc hh = None"
    if ng: "no_gap_below bc h" and br: "block_records bc hh = Some r" and le: "height r \<le> h" for hh r
  proof -
    from ng br le have "heights_in_cache bc h \<noteq> None"
      unfolding no_gap_below_def by blast
    with none show ?thesis by simp
  qed
  then show ?thesis unfolding cleaned_def using ic by blast
qed

lemma cleaned_last:
  assumes ic: "index_consistent bc" and hs: "heights_in_cache bc 0 = Some s"
  shows "cleaned bc 0 (remove_height bc 0 s)"
proof -
  have gone: "block_records (remove_height bc 0 s) hh = None"
    if "block_records bc hh = Some r" "height r \<le> 0" for hh r
    using listed_iff [OF ic hs that(1)] that(2) by (simp add: remove_height_fields)
  have kept: "block_records (remove_height bc 0 s) hh = Some r"
    if "block_records bc hh = Some r" "0 < height r" for hh r
    using listed_iff [OF ic hs that(1)] that by (simp add: remove_height_fields)
  have sub: "block_records (remove_height bc 0 s) hh = None
      \<or> block_records (remove_height bc 0 s) hh = block_records bc hh" for hh
    by (simp add: remove_height_fields)
  show ?thesis
    unfolding cleaned_def
    using remove_height_consistent [OF ic hs] gone kept sub
    by (simp add: remove_height_fields(3,4))
qed

lemma cleaned_step:
  assumes ic: "index_consistent bc" and hs: "heights_in_cache bc (Suc h) = Some s"
    and rest: "cleaned (remove_height bc (Suc h) s) h bc'"
  shows "cleaned bc (Suc h) bc'"
proof -
  let ?bc1 = "remove_height bc (Suc h) s"
  from rest have c1: "index_consistent bc'"
    and p1: "peak_height bc' = peak_height bc" "constants bc' = constants bc"
    and sub1: "\<And>hh. block_records bc' hh = None \<or> block_records bc' hh = block_records ?bc1 hh"
    and kept1: "\<And>hh r. block_records ?bc1 hh = Some r \<Longrightarrow> h < height r \<Longrightarrow> block_records bc' hh = Some r"
    and gone1: "\<And>hh r. no_gap_below ?bc1 h \<Longrightarrow> block_records ?bc1 hh = Some r \<Longrightarrow> height r \<le> h
        \<Longrightarrow> block_records bc' hh = None"
    unfolding cleaned_def by (simp_all add: remove_height_fields(3,4))
  have sub: "block_records bc' hh = None \<or> block_records bc' hh = block_records bc hh" for hh
    using sub1 [of hh] by (cases "hh \<in> s") (simp_all add: remove_height_fields)
  have kept: "block_records bc' hh = Some r"
    if br: "block_records bc hh = Some r" and lt: "Suc h < height r" for hh r
  proof -
    have "hh \<notin> s" using listed_iff [OF ic hs br] lt by simp
    then have "block_records ?bc1 hh = Some r" using br by (simp add: remove_height_fields)
    then show ?thesis using kept1 lt by simp
  qed
  have gone: "block_records bc' hh = None"
    if ng: "no_gap_below bc (Suc h)" and br: "block_records bc hh = Some r"
      and le: "height r \<le> Suc h" for hh r
  proof (cases "height r = Suc h")
    case True
    then have "hh \<in> s" using listed_iff [OF ic hs br] by simp
    then have "block_records ?bc1 hh = None" by (simp add: remove_height_fields)
    with sub1 [of hh] show ?thesis by simp
  next
    case False
    have ng1: "no_gap_below ?bc1 h"
      unfolding no_gap_below_def
    proof (intro allI impI)
      fix hh' r' k
      assume b: "block_records ?bc1 hh' = Some r' \<and> height r' \<le> k \<and> k \<le> h"
      then have "block_records bc hh' = Some r'"
        by (simp add: remove_height_fields split: if_splits)
      moreover from b have "height r' \<le> k" "k \<le> Suc h" by simp_all
      ultimately have "heights_in_cache bc k \<noteq> None"
        using ng unfolding no_gap_below_def by blast
      with b show "heights_in_cache ?bc1 k \<noteq> None"
        by (simp add: remove_height_fields)
    qed
    from False have "hh \<notin> s" using listed_iff [OF ic hs br] by simp
    then have "block_records ?bc1 hh = Some r" using br by (simp add: remove_height_fields)
    moreover have "height r \<le> h" using le False by simp
    ultimately show ?thesis using gone1 [OF ng1] by blast
  qed
  show ?thesis
    unfolding cleaned_def using c1 p1 sub kept gone by blast
qed

lemma loop_cleaned:
  "index_consistent bc \<Longrightarrow> \<exists>bc'. clean_block_record_loop bc h = Inr bc' \<and> cleaned bc h bc'"
proof (induction h arbitrary: bc)
  case 0
  show ?case
  proof (cases "heights_in_cache bc 0")
    case None
    have "clean_block_record_loop bc 0 = Inr bc"
      by (subst loop_unfold) (simp add: None)
    with cleaned_stop [OF 0 None] show ?thesis by blast
  next
    case (Some s)
    have "clean_block_record_loop bc 0 = Inr (remove_height bc 0 s)"
      by (subst loop_unfold) (simp add: Some listed_all_cached [OF 0 Some])
    with cleaned_last [OF 0 Some] show ?thesis by blast
  qed
next
  case (Suc h)
  show ?case
  proof (cases "heights_in_cache bc (Suc h)")
    case None
    have "clean_block_record_loop bc (Suc h) = Inr bc"
      by (subst loop_unfold) (simp add: None)
    with cleaned_stop [OF Suc.prems None] show ?thesis by blast
  next
    case (Some s)
    let ?bc1 = "remove_height bc (Suc h) s"
    have run: "clean_block_record_loop bc (Suc h) = clean_block_record_loop ?bc1 h"
      by (subst loop_unfold) (simp add: Some listed_all_cached [OF Suc.prems Some])
    from Suc.IH [OF remove_height_consistent [OF Suc.prems Some]]
    obtain bc' where "clean_block_record_loop ?bc1 h = Inr bc'" "cleaned ?bc1 h bc'" by blast
    with run cleaned_step [OF Suc.prems Some] show ?thesis by auto
  qed
qed

lemma clean_block_record_in_range:
  "h < 2 ^ 32 \<Longrightarrow> clean_block_record bc (int h) = clean_block_record_loop bc h"
  by (simp add: clean_block_record_def uint32_def)

lemma clean_block_record_props:
  assumes ic: "index_consistent bc" and small: "h < 2 ^ 32"
  shows "\<exists>bc'. clean_block_record bc (int h) = Inr bc' \<and> cleaned bc h bc'"
  using loop_cleaned [OF ic, of h] clean_block_record_in_range [OF small, of bc] by simp

lemma clean_block_records_props:
  assumes ic: "index_consistent bc"
    and pk: "peak_height bc = Some p"
    and full: "BLOCKS_CACHE_SIZE (constants bc) \<le> card (dom (block_records bc))"
    and high: "BLOCKS_CACHE_SIZE (constants bc) \<le> p"
    and small: "p - BLOCKS_CACHE_SIZE (constants bc) < 2 ^ 32"
  shows "\<exists>bc'. clean_block_records bc = Inr bc'
           \<and> cleaned bc (p - BLOCKS_CACHE_SIZE (constants bc)) bc'"
proof -
  let ?n = "BLOCKS_CACHE_SIZE (constants bc)"
  have a: "\<not> card (dom (block_records bc)) < ?n" using full by simp
  have b: "\<not> int p - int ?n < 0" using high by simp
  have e: "int p - int ?n = int (p - ?n)" using high by (rule of_nat_diff [symmetric])
  have "clean_block_records bc = clean_block_record bc (int p - int ?n)"
    unfolding clean_block_records_def
    by (simp only: a b pk if_False option.case)
  then have "clean_block_records bc = clean_block_record bc (int (p - ?n))"
    unfolding e .
  with clean_block_record_props [OF ic small] show ?thesis by simp
qed

lemma add_block_records_snoc:
  "add_block_records bc (rs @ [r]) = add_block_record (add_block_records bc rs) r"
  by (simp add: add_block_records_def)

lemma add_block_record_fields:
  "block_records (add_block_record bc r) hh
     = (if hh = header_hash r then Some r else block_records bc hh)"
  "heights_in_cache (add_block_record bc r) h
     = (if h = height r
        then Some (insert (header_hash r) (case heights_in_cache bc h of None \<Rightarrow> {} | Some s \<Rightarrow> s))
        else heights_in_cache bc h)"
  "constants (add_block_record bc r) = constants bc"
  "peak_height (add_block_record bc r) = peak_height bc"
  by (simp_all add: add_block_record_def)

lemma add_block_records_fields:
  assumes "block_records bc = Map.empty" and "heights_in_cache bc = Map.empty"
    and "distinct (map header_hash rs)"
  shows "(\<forall>hh r. block_records (add_block_records bc rs) hh = Some r
            \<longleftrightarrow> r \<in> set rs \<and> header_hash r = hh)
    \<and> (\<forall>h. heights_in_cache (add_block_records bc rs) h
            = (if \<exists>r \<in> set rs. height r = h
               then Some {header_hash r | r. r \<in> set rs \<and> height r = h} else None))
    \<and> constants (add_block_records bc rs) = constants bc"
  using assms(3)
proof (induction rs rule: rev_induct)
  case Nil
  then show ?case using assms(1,2) by (simp add: add_block_records_def)
next
  case (snoc x xs)
  let ?b = "add_block_records bc xs"
  from snoc.prems have dx: "distinct (map header_hash xs)"
    and nin: "header_hash x \<notin> header_hash ` set xs" by simp_all
  have fresh: "header_hash r \<noteq> header_hash x" if "r \<in> set xs" for r
    using nin that by (metis imageI)
  from snoc.IH [OF dx] have
    br: "\<And>hh r. block_records ?b hh = Some r \<longleftrightarrow> r \<in> set xs \<and> header_hash r = hh"
    and hi: "\<And>h. heights_in_cache ?b h
            = (if \<exists>r \<in> set xs. height r = h
               then Some {header_hash r | r. r \<in> set xs \<and> height r = h} else None)"
    and co: "constants ?b = constants bc"
    by blast+
  have 1: "block_records (add_block_records bc (xs @ [x])) hh = Some r
        \<longleftrightarrow> r \<in> set (xs @ [x]) \<and> header_hash r = hh" for hh r
  proof (cases "hh = header_hash x")
    case True
    have "block_records (add_block_records bc (xs @ [x])) hh = Some x"
      by (simp add: add_block_records_snoc add_block_record_fields True)
    moreover have "(r \<in> set (xs @ [x]) \<and> header_hash r = hh) \<longleftrightarrow> r = x"
      using fresh [of r] True by auto
    ultimately show ?thesis by auto
  next
    case False
    have "block_records (add_block_records bc (xs @ [x])) hh = block_records ?b hh"
      by (simp add: add_block_records_snoc add_block_record_fields False)
    moreover have "(r \<in> set (xs @ [x]) \<and> header_hash r = hh) \<longleftrightarrow> (r \<in> set xs \<and> header_hash r = hh)"
      using False by auto
    ultimately show ?thesis using br [of hh r] by simp
  qed
  have 2: "heights_in_cache (add_block_records bc (xs @ [x])) h
            = (if \<exists>r \<in> set (xs @ [x]). height r = h
               then Some {header_hash r | r. r \<in> set (xs @ [x]) \<and> height r = h} else None)" for h
  proof (cases "h = height x")
    case True
    have l: "heights_in_cache (add_block_records bc (xs @ [x])) h
        = Some (insert (header_hash x) (case heights_in_cache ?b h of None \<Rightarrow> {} | Some s \<Rightarrow> s))"
      by (simp add: add_block_records_snoc add_block_record_fields True)
    have m: "(case heights_in_cache ?b h of None \<Rightarrow> {} | Some s \<Rightarrow> s)
        = {header_hash r | r. r \<in> set xs \<and> height r = h}"
      by (simp add: hi [of h])
    have n: "insert (header_hash x) {header_hash r | r. r \<in> set xs \<and> height r = h}
        = {header_hash r | r. r \<in> set (xs @ [x]) \<and> height r = h}"
      using True by auto
    have e: "\<exists>r \<in> set (xs @ [x]). height r = h" using True by simp
    show ?thesis unfolding l m n using e by simp
  next
    case False
    have l: "heights_in_cache (add_block_records bc (xs @ [x])) h = heights_in_cache ?b h"
      by (simp add: add_block_records_snoc add_block_record_fields False)
    have n: "{header_hash r | r. r \<in> set (xs @ [x]) \<and> height r = h}
        = {header_hash r | r. r \<in> set xs \<and> height r = h}"
      using False by auto
    have e: "(\<exists>r \<in> set (xs @ [x]). height r = h) \<longleftrightarrow> (\<exists>r \<in> set xs. height r = h)"
      using False by auto
    show ?thesis unfolding l n e by (rule hi)
  qed
  have 3: "constants (add_block_records bc (xs @ [x])) = constants bc"
    unfolding add_block_records_snoc add_block_record_fields using co .
  from 1 2 3 show ?case by blast
qed

lemma clean_block_records_bound:
  assumes ic: "index_consistent bc"
    and pk: "peak_height bc = Some p"
    and fits: "p - BLOCKS_CACHE_SIZE (constants bc) < 2 ^ 32"
    and guard: "p < BLOCKS_CACHE_SIZE (constants bc)
        \<or> (BLOCKS_CACHE_SIZE (constants bc) \<le> card (dom (block_records bc))
            \<and> no_gap_below bc (p - BLOCKS_CACHE_SIZE (constants bc)))"
  shows "\<exists>bc'. clean_block_records bc = Inr bc'
     \<and> (\<forall>hh r. block_records bc' hh = Some r \<longrightarrow>
          int p - int (BLOCKS_CACHE_SIZE (constants bc)) \<le> int (height r))"
proof (cases "p < BLOCKS_CACHE_SIZE (constants bc)")
  case True
  then have neg: "int p - int (BLOCKS_CACHE_SIZE (constants bc)) < 0" by simp
  have "clean_block_records bc = Inr bc"
    unfolding clean_block_records_def by (simp only: neg pk if_True option.case if_cancel)
  moreover have "int p - int (BLOCKS_CACHE_SIZE (constants bc)) \<le> int (height r)" for r
    using neg by linarith
  ultimately show ?thesis by blast
next
  case False
  let ?n = "BLOCKS_CACHE_SIZE (constants bc)"
  from False guard have full: "?n \<le> card (dom (block_records bc))"
    and ng: "no_gap_below bc (p - ?n)" and high: "?n \<le> p" by simp_all
  from clean_block_records_props [OF ic pk full high fits] obtain bc' where
    run: "clean_block_records bc = Inr bc'" and cl: "cleaned bc (p - ?n) bc'" by blast
  have "int p - int ?n \<le> int (height r)" if a: "block_records bc' hh = Some r" for hh r
  proof (rule ccontr)
    assume "\<not> int p - int ?n \<le> int (height r)"
    then have le: "height r \<le> p - ?n" by linarith
    from cl a have old: "block_records bc hh = Some r"
      unfolding cleaned_def by (metis option.distinct(1))
    from cl ng old le have "block_records bc' hh = None"
      unfolding cleaned_def by blast
    with a show False by simp
  qed
  with run show ?thesis by blast
qed

lemma clean_block_record_frame:
  assumes ic: "index_consistent bc" and small: "h < 2 ^ 32"
  shows "\<exists>bc'. clean_block_record bc (int h) = Inr bc'
     \<and> (\<forall>hh r. block_records bc hh = Some r \<and> h < height r \<longrightarrow> block_records bc' hh = Some r)
     \<and> (\<forall>hh. block_records bc hh = None \<longrightarrow> block_records bc' hh = None)
     \<and> (no_gap_below bc h \<longrightarrow>
          (\<forall>hh r. block_records bc hh = Some r \<and> height r < h \<longrightarrow> block_records bc' hh = None))"
proof -
  from clean_block_record_props [OF ic small] obtain bc' where
    run: "clean_block_record bc (int h) = Inr bc'" and cl: "cleaned bc h bc'" by blast
  from cl have kept: "\<forall>hh r. block_records bc hh = Some r \<and> h < height r \<longrightarrow> block_records bc' hh = Some r"
    unfolding cleaned_def by blast
  from cl have sub: "\<And>hh. block_records bc' hh = None \<or> block_records bc' hh = block_records bc hh"
    unfolding cleaned_def by blast
  have none: "\<forall>hh. block_records bc hh = None \<longrightarrow> block_records bc' hh = None"
    using sub by metis
  from cl have gone: "no_gap_below bc h \<longrightarrow>
      (\<forall>hh r. block_records bc hh = Some r \<and> height r \<le> h \<longrightarrow> block_records bc' hh = None)"
    unfolding cleaned_def by blast
  then have gone': "no_gap_below bc h \<longrightarrow>
      (\<forall>hh r. block_records bc hh = Some r \<and> height r < h \<longrightarrow> block_records bc' hh = None)"
    using less_imp_le by blast
  from run kept none gone' show ?thesis by blast
qed

lemma consecutive_blocks_cleaned:
  assumes e1: "block_records bc0 = Map.empty" and e2: "heights_in_cache bc0 = Map.empty"
    and d: "distinct (map header_hash rs)"
    and hs: "map height rs = [0..<n]"
    and n: "n = BLOCKS_CACHE_SIZE (constants bc0) + 100"
  shows "\<exists>bc'. clean_block_records ((add_block_records bc0 rs)\<lparr>peak_height := Some (n - 1)\<rparr>) = Inr bc'
     \<and> (\<forall>r \<in> set rs. n - BLOCKS_CACHE_SIZE (constants bc0) \<le> height r
           \<longrightarrow> block_records bc' (header_hash r) = Some r)
     \<and> (\<forall>hh r. block_records bc' hh = Some r
           \<longrightarrow> r \<in> set rs \<and> n - 1 - BLOCKS_CACHE_SIZE (constants bc0) \<le> height r)"
proof -
  let ?k = "BLOCKS_CACHE_SIZE (constants bc0)"
  let ?b = "add_block_records bc0 rs"
  let ?bc1 = "?b\<lparr>peak_height := Some (n - 1)\<rparr>"
  from add_block_records_fields [OF e1 e2 d] have
    br: "\<And>hh r. block_records ?b hh = Some r \<longleftrightarrow> r \<in> set rs \<and> header_hash r = hh"
    and hi: "\<And>h. heights_in_cache ?b h
            = (if \<exists>r \<in> set rs. height r = h
               then Some {header_hash r | r. r \<in> set rs \<and> height r = h} else None)"
    and co: "constants ?b = constants bc0"
    by blast+
  have len: "length rs = n"
    using arg_cong [OF hs, of length] by simp
  have hset: "height ` set rs = {0..<n}"
    using arg_cong [OF hs, of set] by simp
  have indexed: "(\<exists>r \<in> set rs. height r = k) \<longleftrightarrow> k < n" for k
  proof -
    have "(\<exists>r \<in> set rs. height r = k) \<longleftrightarrow> k \<in> height ` set rs" by auto
    then show ?thesis unfolding hset by simp
  qed
  have ic: "index_consistent ?bc1"
    unfolding index_consistent_def
  proof (intro conjI allI impI)
    fix hh r assume "block_records ?bc1 hh = Some r"
    then have m: "r \<in> set rs" "header_hash r = hh" using br [of hh r] by simp_all
    then have "heights_in_cache ?b (height r) = Some {header_hash r' | r'. r' \<in> set rs \<and> height r' = height r}"
      using hi [of "height r"] by auto
    moreover have "hh \<in> {header_hash r' | r'. r' \<in> set rs \<and> height r' = height r}"
      using m by auto
    ultimately show "\<exists>s. heights_in_cache ?bc1 (height r) = Some s \<and> hh \<in> s" by simp
  next
    fix h s hh assume a: "heights_in_cache ?bc1 h = Some s \<and> hh \<in> s"
    then have "heights_in_cache ?b h = Some s" "hh \<in> s" by simp_all
    with hi [of h] have "hh \<in> {header_hash r | r. r \<in> set rs \<and> height r = h}"
      by (simp split: if_splits)
    then obtain r where "r \<in> set rs" "height r = h" "header_hash r = hh" by auto
    then show "\<exists>r. block_records ?bc1 hh = Some r \<and> height r = h"
      using br [of hh r] by auto
  qed
  have dom: "dom (block_records ?bc1) = set (map header_hash rs)"
  proof -
    have "hh \<in> dom (block_records ?bc1) \<longleftrightarrow> hh \<in> set (map header_hash rs)" for hh
    proof
      assume "hh \<in> dom (block_records ?bc1)"
      then obtain r where "block_records ?b hh = Some r" by auto
      with br [of hh r] show "hh \<in> set (map header_hash rs)" by auto
    next
      assume "hh \<in> set (map header_hash rs)"
      then obtain r where "r \<in> set rs" "header_hash r = hh" by auto
      with br [of hh r] show "hh \<in> dom (block_records ?bc1)" by auto
    qed
    then show ?thesis by blast
  qed
  have card: "card (dom (block_records ?bc1)) = n"
    unfolding dom using distinct_card [OF d] len by simp
  have pk: "peak_height ?bc1 = Some (n - 1)" by simp
  have co1: "constants ?bc1 = constants bc0" using co by simp
  have ng: "no_gap_below ?bc1 (n - 1 - ?k)"
    unfolding no_gap_below_def
  proof (intro allI impI)
    fix hh r k assume "block_records ?bc1 hh = Some r \<and> height r \<le> k \<and> k \<le> n - 1 - ?k"
    then have "k < n" using n by simp
    then have "\<exists>r \<in> set rs. height r = k" using indexed by simp
    then show "heights_in_cache ?bc1 k \<noteq> None" using hi [of k] by simp
  qed
  have full: "BLOCKS_CACHE_SIZE (constants ?bc1) \<le> card (dom (block_records ?bc1))"
    unfolding card co1 using n by simp
  have high: "BLOCKS_CACHE_SIZE (constants ?bc1) \<le> n - 1"
    unfolding co1 using n by simp
  have small: "n - 1 - BLOCKS_CACHE_SIZE (constants ?bc1) < 2 ^ 32"
    unfolding co1 using n by simp
  from clean_block_records_props [OF ic pk full high small] obtain bc' where
    run: "clean_block_records ?bc1 = Inr bc'" and cl: "cleaned ?bc1 (n - 1 - ?k) bc'"
    unfolding co1 by blast
  have kept: "block_records bc' (header_hash r) = Some r"
    if "r \<in> set rs" "n - ?k \<le> height r" for r
  proof -
    have "block_records ?bc1 (header_hash r) = Some r" using br [of "header_hash r" r] that by simp
    moreover have "n - 1 - ?k < height r" using that(2) n by simp
    ultimately show ?thesis using cl unfolding cleaned_def by blast
  qed
  have only: "r \<in> set rs \<and> n - 1 - ?k \<le> height r" if a: "block_records bc' hh = Some r" for hh r
  proof -
    from cl a have old: "block_records ?bc1 hh = Some r"
      unfolding cleaned_def by (metis option.distinct(1))
    then have m: "r \<in> set rs" using br [of hh r] by simp
    have "\<not> height r < n - 1 - ?k"
    proof
      assume "height r < n - 1 - ?k"
      then have "height r \<le> n - 1 - ?k" by simp
      with cl ng old have "block_records bc' hh = None"
        unfolding cleaned_def by blast
      with a show False by simp
    qed
    with m show ?thesis by simp
  qed
  from run kept only show ?thesis by blast
qed

text \<open>
  C7, as the code has it. \<open>clean_block_records\<close> returns at once while the cache holds
  fewer than \<open>BLOCKS_CACHE_SIZE\<close> records: with a cache size of 3 and a peak at height
  10, a cache of two records keeps its record of height 0, far below
  \<open>peak - BLOCKS_CACHE_SIZE = 7\<close>. And the loop of \<open>clean_block_record\<close> stops at the
  first height that the index does not list: with a cache size of 1, a peak at height 3
  and no record at height 1, the record of height 2 is removed and the record of height 0
  stays, below \<open>peak - BLOCKS_CACHE_SIZE = 2\<close>. And \<open>clean_block_record\<close> raises
  \<open>ValueError\<close> at a height that does not fit 32 bits: at \<open>2 ^ 32\<close> nothing is removed
  from the two-block chain.
\<close>

theorem cache_cleaning_counterexample:
  "clean_block_records blockchain_sparse = Inr blockchain_sparse
   \<and> peak_height blockchain_sparse = Some 10
   \<and> BLOCKS_CACHE_SIZE (constants blockchain_sparse) = 3
   \<and> block_records blockchain_sparse 10 = Some (mk_record 10 0 0 1 True)
   \<and> height (mk_record 10 0 0 1 True) = 0
   \<and> clean_block_records blockchain_gap
       = Inr (blockchain_gap
           \<lparr>block_records := [10 \<mapsto> mk_record 10 0 0 1 True, 13 \<mapsto> mk_record 13 12 3 4 True],
            heights_in_cache := [0 \<mapsto> {10}, 3 \<mapsto> {13}]\<rparr>)
   \<and> peak_height blockchain_gap = Some 3
   \<and> BLOCKS_CACHE_SIZE (constants blockchain_gap) = 1
   \<and> clean_block_record blockchain_1 4294967296 = Inl ValueError"
proof -
  have sparse: "clean_block_records blockchain_sparse = Inr blockchain_sparse
      \<and> peak_height blockchain_sparse = Some 10
      \<and> BLOCKS_CACHE_SIZE (constants blockchain_sparse) = 3
      \<and> block_records blockchain_sparse 10 = Some (mk_record 10 0 0 1 True)
      \<and> height (mk_record 10 0 0 1 True) = 0"
    by (simp add: clean_block_records_def blockchain_sparse_def constants_1_def mk_record_def)
  have gap: "clean_block_records blockchain_gap
       = Inr (blockchain_gap
           \<lparr>block_records := [10 \<mapsto> mk_record 10 0 0 1 True, 13 \<mapsto> mk_record 13 12 3 4 True],
            heights_in_cache := [0 \<mapsto> {10}, 3 \<mapsto> {13}]\<rparr>)
      \<and> peak_height blockchain_gap = Some 3
      \<and> BLOCKS_CACHE_SIZE (constants blockchain_gap) = 1"
    by (auto simp: clean_block_records_def clean_block_record_def uint32_def
        clean_block_record_loop.simps blockchain_gap_def constants_1_def mk_record_def fun_eq_iff)
  have range: "clean_block_record blockchain_1 4294967296 = Inl ValueError"
    by (simp add: clean_block_record_def uint32_def)
  from sparse gap range show ?thesis by blast
qed

text \<open>
  \<open>clean_block_record(h)\<close> also removes the records of height \<open>h\<close> itself, where its
  docstring speaks of the records below \<open>h\<close>: on the two-block chain
  \<open>clean_block_record(1)\<close> empties the cache.
\<close>

lemma clean_block_record_removes_height_itself:
  "index_consistent blockchain_1
   \<and> block_records blockchain_1 11 = Some (mk_record 11 10 1 3 True)
   \<and> height (mk_record 11 10 1 3 True) = 1
   \<and> (case clean_block_record blockchain_1 1 of
         Inl e \<Rightarrow> False
       | Inr bc' \<Rightarrow> block_records bc' 11 = None \<and> block_records bc' 10 = None)"
  by (auto simp: index_consistent_def clean_block_record_def uint32_def
      clean_block_record_loop.simps blockchain_1_def mk_record_def split: if_splits)

text \<open>
  C7 (amended). Let the heights index agree with the record cache. If the peak is defined,
  \<open>peak - BLOCKS_CACHE_SIZE\<close> is less than \<open>2 ^ 32\<close>, and the peak either lies below
  \<open>BLOCKS_CACHE_SIZE\<close>, or the cache holds at least \<open>BLOCKS_CACHE_SIZE\<close> records and the
  index has no gap below \<open>peak - BLOCKS_CACHE_SIZE\<close>, then after \<open>clean_block_records\<close> every cached record
  has height at least \<open>peak - BLOCKS_CACHE_SIZE\<close>. For every \<open>h\<close> with
  \<open>0 \<le> h < 2 ^ 32\<close>, \<open>clean_block_record(h)\<close> returns normally, adds nothing to the
  cache, keeps every record above \<open>h\<close> and, when the index has no gap below \<open>h\<close>,
  removes every record below \<open>h\<close>.
  After \<open>BLOCKS_CACHE_SIZE + 100\<close> records at consecutive heights from 0 have been added
  to an empty cache and \<open>clean_block_records\<close> has run with the peak at the last of
  them, the cache holds all records of the top \<open>BLOCKS_CACHE_SIZE\<close> heights and no
  record below the top \<open>BLOCKS_CACHE_SIZE + 1\<close> heights. Whether the records of height
  \<open>h\<close>, or of height \<open>peak - BLOCKS_CACHE_SIZE\<close>, stay is left open.
\<close>

theorem cache_cleaning:
  "(index_consistent bc \<and> peak_height bc = Some p
      \<and> p - BLOCKS_CACHE_SIZE (constants bc) < 2 ^ 32
      \<and> (p < BLOCKS_CACHE_SIZE (constants bc)
          \<or> (BLOCKS_CACHE_SIZE (constants bc) \<le> card (dom (block_records bc))
              \<and> no_gap_below bc (p - BLOCKS_CACHE_SIZE (constants bc)))) \<longrightarrow>
      (\<exists>bc'. clean_block_records bc = Inr bc'
         \<and> (\<forall>hh r. block_records bc' hh = Some r \<longrightarrow>
              int p - int (BLOCKS_CACHE_SIZE (constants bc)) \<le> int (height r))))
   \<and> (index_consistent bc \<and> h < 2 ^ 32 \<longrightarrow>
      (\<exists>bc'. clean_block_record bc (int h) = Inr bc'
         \<and> (\<forall>hh r. block_records bc hh = Some r \<and> h < height r \<longrightarrow> block_records bc' hh = Some r)
         \<and> (\<forall>hh. block_records bc hh = None \<longrightarrow> block_records bc' hh = None)
         \<and> (no_gap_below bc h \<longrightarrow>
              (\<forall>hh r. block_records bc hh = Some r \<and> height r < h \<longrightarrow> block_records bc' hh = None))))
   \<and> (block_records bc0 = Map.empty \<and> heights_in_cache bc0 = Map.empty
        \<and> distinct (map header_hash rs) \<and> map height rs = [0..<n]
        \<and> n = BLOCKS_CACHE_SIZE (constants bc0) + 100 \<longrightarrow>
      (\<exists>bc'. clean_block_records ((add_block_records bc0 rs)\<lparr>peak_height := Some (n - 1)\<rparr>) = Inr bc'
         \<and> (\<forall>r \<in> set rs. n - BLOCKS_CACHE_SIZE (constants bc0) \<le> height r
               \<longrightarrow> block_records bc' (header_hash r) = Some r)
         \<and> (\<forall>hh r. block_records bc' hh = Some r
               \<longrightarrow> r \<in> set rs \<and> n - 1 - BLOCKS_CACHE_SIZE (constants bc0) \<le> height r)))"
proof (intro conjI impI)
  assume "index_consistent bc \<and> peak_height bc = Some p
      \<and> p - BLOCKS_CACHE_SIZE (constants bc) < 2 ^ 32
      \<and> (p < BLOCKS_CACHE_SIZE (constants bc)
          \<or> (BLOCKS_CACHE_SIZE (constants bc) \<le> card (dom (block_records bc))
              \<and> no_gap_below bc (p - BLOCKS_CACHE_SIZE (constants bc))))"
  then show "\<exists>bc'. clean_block_records bc = Inr bc'
         \<and> (\<forall>hh r. block_records bc' hh = Some r \<longrightarrow>
              int p - int (BLOCKS_CACHE_SIZE (constants bc)) \<le> int (height r))"
    using clean_block_records_bound [of bc p] by blast
next
  assume "index_consistent bc \<and> h < 2 ^ 32"
  then have "index_consistent bc" and "h < 2 ^ 32" by simp_all
  then show "\<exists>bc'. clean_block_record bc (int h) = Inr bc'
         \<and> (\<forall>hh r. block_records bc hh = Some r \<and> h < height r \<longrightarrow> block_records bc' hh = Some r)
         \<and> (\<forall>hh. block_records bc hh = None \<longrightarrow> block_records bc' hh = None)
         \<and> (no_gap_below bc h \<longrightarrow>
              (\<forall>hh r. block_records bc hh = Some r \<and> height r < h \<longrightarrow> block_records bc' hh = None))"
    by (rule clean_block_record_frame)
next
  assume "block_records bc0 = Map.empty \<and> heights_in_cache bc0 = Map.empty
        \<and> distinct (map header_hash rs) \<and> map height rs = [0..<n]
        \<and> n = BLOCKS_CACHE_SIZE (constants bc0) + 100"
  then show "\<exists>bc'. clean_block_records ((add_block_records bc0 rs)\<lparr>peak_height := Some (n - 1)\<rparr>) = Inr bc'
         \<and> (\<forall>r \<in> set rs. n - BLOCKS_CACHE_SIZE (constants bc0) \<le> height r
               \<longrightarrow> block_records bc' (header_hash r) = Some r)
         \<and> (\<forall>hh r. block_records bc' hh = Some r
               \<longrightarrow> r \<in> set rs \<and> n - 1 - BLOCKS_CACHE_SIZE (constants bc0) \<le> height r)"
    using consecutive_blocks_cleaned [of bc0 rs n] by blast
qed

lemma index_consistent_blockchain_1: "index_consistent blockchain_1"
  by (auto simp: index_consistent_def blockchain_1_def mk_record_def split: if_splits)

lemma no_gap_below_blockchain_1: "no_gap_below blockchain_1 1"
  by (auto simp: no_gap_below_def blockchain_1_def mk_record_def split: if_splits)

lemma records_upto_fields:
  "map height (records_upto n) = [0..<n]"
  "distinct (map header_hash (records_upto n))"
proof -
  have "map height (records_upto n) = map (\<lambda>i. i) [0..<n]"
    by (simp add: records_upto_def nth_record_def mk_record_def comp_def)
  then show "map height (records_upto n) = [0..<n]" by simp
  have "map header_hash (records_upto n) = map (\<lambda>i. 1000 + i) [0..<n]"
    by (simp add: records_upto_def nth_record_def mk_record_def comp_def)
  then show "distinct (map header_hash (records_upto n))"
    by (simp add: distinct_map inj_on_def)
qed

theorem cache_cleaning_witness:
  "(\<exists>bc'. clean_block_records blockchain_small_cache = Inr bc'
         \<and> (\<forall>hh r. block_records bc' hh = Some r \<longrightarrow> 0 \<le> int (height r)))
   \<and> (\<exists>bc'. clean_block_record blockchain_1 1 = Inr bc'
         \<and> (\<forall>hh. block_records blockchain_1 hh = None \<longrightarrow> block_records bc' hh = None)
         \<and> block_records bc' 10 = None)
   \<and> (\<exists>bc'. clean_block_records
                ((add_block_records blockchain_0 (records_upto 103))\<lparr>peak_height := Some 102\<rparr>) = Inr bc'
         \<and> (\<forall>r \<in> set (records_upto 103). 100 \<le> height r
               \<longrightarrow> block_records bc' (header_hash r) = Some r)
         \<and> (\<forall>hh r. block_records bc' hh = Some r
               \<longrightarrow> r \<in> set (records_upto 103) \<and> 99 \<le> height r))"
proof -
  have ic: "index_consistent blockchain_small_cache"
    by (auto simp: index_consistent_def blockchain_small_cache_def blockchain_1_def mk_record_def
        split: if_splits)
  have pk: "peak_height blockchain_small_cache = Some 1"
    and k: "BLOCKS_CACHE_SIZE (constants blockchain_small_cache) = 1"
    by (simp_all add: blockchain_small_cache_def blockchain_1_def)
  have cd: "card (dom (block_records blockchain_small_cache)) = 2"
    by (simp add: blockchain_small_cache_def blockchain_1_def)
  have ng: "no_gap_below blockchain_small_cache 0"
    by (auto simp: no_gap_below_def blockchain_small_cache_def blockchain_1_def mk_record_def
        split: if_splits)
  have a: "\<exists>bc'. clean_block_records blockchain_small_cache = Inr bc'
         \<and> (\<forall>hh r. block_records bc' hh = Some r \<longrightarrow> 0 \<le> int (height r))"
    using cache_cleaning [of blockchain_small_cache 1 0 blockchain_0 "[]" 0] ic pk k cd ng
    by simp
  have rec: "block_records blockchain_1 10 = Some (mk_record 10 0 0 1 True)"
    "height (mk_record 10 0 0 1 True) < 1"
    by (simp_all add: blockchain_1_def mk_record_def)
  have small: "(1::nat) < 2 ^ 32" by simp
  have b: "\<exists>bc'. clean_block_record blockchain_1 1 = Inr bc'
         \<and> (\<forall>hh. block_records blockchain_1 hh = None \<longrightarrow> block_records bc' hh = None)
         \<and> block_records bc' 10 = None"
    using cache_cleaning [of blockchain_1 1 1 blockchain_0 "[]" 0]
      index_consistent_blockchain_1 no_gap_below_blockchain_1 rec small
    by (metis of_nat_1)
  have e: "block_records blockchain_0 = Map.empty" "heights_in_cache blockchain_0 = Map.empty"
    "BLOCKS_CACHE_SIZE (constants blockchain_0) = 3"
    by (simp_all add: blockchain_0_def constants_1_def)
  have c: "\<exists>bc'. clean_block_records
                ((add_block_records blockchain_0 (records_upto 103))\<lparr>peak_height := Some 102\<rparr>) = Inr bc'
         \<and> (\<forall>r \<in> set (records_upto 103). 100 \<le> height r
               \<longrightarrow> block_records bc' (header_hash r) = Some r)
         \<and> (\<forall>hh r. block_records bc' hh = Some r
               \<longrightarrow> r \<in> set (records_upto 103) \<and> 99 \<le> height r)"
    using cache_cleaning [of blockchain_1 1 1 blockchain_0 "records_upto 103" 103]
      e records_upto_fields [of 103]
    by simp
  from a b c show ?thesis by blast
qed

subsection \<open>Recent reward challenges\<close>

text \<open>The inner loop of the code gives the pairs of the finished sub-slots.\<close>

lemma slot_pairs_indexed:
  "slot_pairs t ssi rcs
     = map (\<lambda>j. (rcs ! j, t - j * ssi)) (filter (\<lambda>j. (j + 1) * ssi \<le> t) [0 ..< length rcs])"
proof (induction rcs arbitrary: t)
  case Nil
  then show ?case by simp
next
  case (Cons rc rcs)
  have idx: "[0 ..< length (rc # rcs)] = 0 # map Suc [0 ..< length rcs]"
    by (simp add: upt_conv_Cons map_Suc_upt del: upt_Suc)
  show ?case
  proof (cases "t < ssi")
    case True
    then have "\<not> (j + 1) * ssi \<le> t" for j by simp
    then have "filter (\<lambda>j. (j + 1) * ssi \<le> t) [0 ..< length (rc # rcs)] = []"
      by simp
    with True show ?thesis by simp
  next
    case False
    then have le: "ssi \<le> t" by simp
    have p: "(ssi + (ssi + j * ssi) \<le> t) = (ssi + j * ssi \<le> t - ssi)" for j
      using le by auto
    have v: "t - Suc j * ssi = t - ssi - j * ssi" for j by simp
    have "filter (\<lambda>j. (j + 1) * ssi \<le> t) [0 ..< length (rc # rcs)]
        = 0 # map Suc (filter (\<lambda>j. (j + 1) * ssi \<le> t - ssi) [0 ..< length rcs])"
      unfolding idx using le by (simp add: filter_map comp_def p del: upt_Suc)
    then have "map (\<lambda>j. ((rc # rcs) ! j, t - j * ssi))
                 (filter (\<lambda>j. (j + 1) * ssi \<le> t) [0 ..< length (rc # rcs)])
        = (rc, t) # map (\<lambda>j. (rcs ! j, t - ssi - j * ssi))
                      (filter (\<lambda>j. (j + 1) * ssi \<le> t - ssi) [0 ..< length rcs])"
      by (simp add: comp_def v del: upt_Suc)
    also have "\<dots> = (rc, t) # slot_pairs (t - ssi) ssi rcs"
      by (simp only: Cons.IH)
    also have "\<dots> = slot_pairs t ssi (rc # rcs)" using False by simp
    finally show ?thesis by simp
  qed
qed

text \<open>
  One round of the loop appends the pairs of the record it visits, unless the record is
  first in its sub-slot without finished reward slot hashes.
\<close>

lemma block_pairs_record_pairs:
  assumes "first_in_sub_slot c \<longrightarrow> finished_reward_slot_hashes c \<noteq> None"
  shows "block_pairs env C peak c = Inr (record_pairs env C peak c)"
proof (cases "first_in_sub_slot c")
  case False
  then show ?thesis by (simp add: block_pairs_def record_pairs_def)
next
  case True
  with assms obtain hs where hs: "finished_reward_slot_hashes c = Some hs" by auto
  show ?thesis
    by (simp add: block_pairs_def record_pairs_def finished_slot_pairs_def True hs
        slot_pairs_indexed [of _ _ "rev hs"])
qed

lemma try_block_record_lookup: "try_block_record bc hh = block_records bc hh"
  by (simp add: try_block_record_def contains_block_def)

lemma lookup_cached:
  "block_records bc hh = None \<or> (\<exists>c. block_records bc hh = Some c \<and> cached bc c)"
  unfolding cached_def by (cases "block_records bc hh") auto

lemma recent_rc_loop_walk:
  assumes safe: "\<forall>r. cached bc r \<and> first_in_sub_slot r \<longrightarrow> finished_reward_slot_hashes r \<noteq> None"
  shows "rc_walk env bc peak cur (length acc) cs \<Longrightarrow>
     cur = None \<or> (\<exists>c. cur = Some c \<and> cached bc c) \<Longrightarrow>
     recent_rc_loop env bc peak cur acc = Some (Inr (acc @ walk_pairs env (constants bc) peak cs))"
proof (induction cs arbitrary: cur acc)
  case Nil
  then show ?case
    by (subst recent_rc_loop.simps) (auto simp: walk_pairs_def split: option.splits)
next
  case (Cons c cs)
  let ?ps = "record_pairs env (constants bc) peak c"
  from Cons.prems(1) have cur: "cur = Some c"
    and lt: "length acc < 2 * MAX_SUB_SLOT_BLOCKS (constants bc)"
    and rest: "rc_walk env bc peak (block_records bc (prev_hash c)) (length (acc @ ?ps)) cs"
    by simp_all
  from Cons.prems(2) cur have "cached bc c" by simp
  with safe have "first_in_sub_slot c \<longrightarrow> finished_reward_slot_hashes c \<noteq> None" by blast
  then have ps: "block_pairs env (constants bc) peak c = Inr ?ps"
    by (rule block_pairs_record_pairs)
  have "recent_rc_loop env bc peak (block_records bc (prev_hash c)) (acc @ ?ps)
      = Some (Inr ((acc @ ?ps) @ walk_pairs env (constants bc) peak cs))"
    using rest lookup_cached [of bc "prev_hash c"] by (rule Cons.IH)
  then show ?case
    by (subst recent_rc_loop.simps) (simp add: cur lt ps try_block_record_lookup walk_pairs_def)
qed

lemma length_finished_slot_pairs: "length (finished_slot_pairs t ssi hs) \<le> length hs"
proof -
  have "length (filter (\<lambda>j. (j + 1) * ssi \<le> t) [0 ..< length hs]) \<le> length [0 ..< length hs]"
    by (rule length_filter_le)
  then show ?thesis by (simp add: finished_slot_pairs_def)
qed

lemma length_record_pairs:
  assumes "\<forall>hs. finished_reward_slot_hashes c = Some hs \<longrightarrow> length hs \<le> K"
  shows "length (record_pairs env C peak c) \<le> 1 + K"
proof -
  let ?hs = "case finished_reward_slot_hashes c of None \<Rightarrow> [] | Some hs \<Rightarrow> hs"
  have "length ?hs \<le> K" using assms by (cases "finished_reward_slot_hashes c") simp_all
  with length_finished_slot_pairs [of "ip_sub_slot_total_iters env C c" "sub_slot_iters c" ?hs]
  have "length (finished_slot_pairs (ip_sub_slot_total_iters env C c) (sub_slot_iters c) ?hs) \<le> K"
    by simp
  then show ?thesis unfolding record_pairs_def by (cases "c = peak") auto
qed

lemma rc_walk_cached:
  "rc_walk env bc peak cur n cs \<Longrightarrow> cur = None \<or> (\<exists>c. cur = Some c \<and> cached bc c) \<Longrightarrow>
   \<forall>c \<in> set cs. cached bc c"
proof (induction cs arbitrary: cur n)
  case Nil
  then show ?case by simp
next
  case (Cons c cs)
  from Cons.prems have c: "cached bc c" by simp
  from Cons.prems(1) have
    "rc_walk env bc peak (block_records bc (prev_hash c))
       (n + length (record_pairs env (constants bc) peak c)) cs"
    by simp
  from Cons.IH [OF this lookup_cached] c show ?case by simp
qed

lemma walk_pairs_bound:
  "rc_walk env bc peak cur n cs \<Longrightarrow>
   \<forall>c \<in> set cs. \<forall>hs. finished_reward_slot_hashes c = Some hs \<longrightarrow> length hs \<le> K \<Longrightarrow>
   n + length (walk_pairs env (constants bc) peak cs)
     \<le> max n (2 * MAX_SUB_SLOT_BLOCKS (constants bc) + K)"
proof (induction cs arbitrary: cur n)
  case Nil
  then show ?case by (simp add: walk_pairs_def)
next
  case (Cons c cs)
  let ?ps = "record_pairs env (constants bc) peak c"
  from Cons.prems(1) have lt: "n < 2 * MAX_SUB_SLOT_BLOCKS (constants bc)"
    and rest: "rc_walk env bc peak (block_records bc (prev_hash c)) (n + length ?ps) cs"
    by simp_all
  have lp: "length ?ps \<le> 1 + K"
    using length_record_pairs [of c K] Cons.prems(2) by simp
  have "n + length ?ps + length (walk_pairs env (constants bc) peak cs)
      \<le> max (n + length ?ps) (2 * MAX_SUB_SLOT_BLOCKS (constants bc) + K)"
    using Cons.IH [OF rest] Cons.prems(2) by simp
  moreover have "n + length ?ps \<le> 2 * MAX_SUB_SLOT_BLOCKS (constants bc) + K"
    using lt lp by simp
  ultimately show ?case by (simp add: walk_pairs_def)
qed

text \<open>
  The walk ends: every record but the peak adds its own pair, and the peak is met once
  when its parent hash does not lead back to it.
\<close>

lemma walk_exists:
  assumes noloop: "block_records bc (prev_hash peak) \<noteq> Some peak"
  shows "\<exists>cs. rc_walk env bc peak cur n cs"
proof (induction "2 * (2 * MAX_SUB_SLOT_BLOCKS (constants bc) - n) + (if cur = Some peak then 1 else 0)"
    arbitrary: cur n rule: less_induct)
  case less
  let ?M = "2 * MAX_SUB_SLOT_BLOCKS (constants bc)"
  show ?case
  proof (cases "cur = None \<or> ?M \<le> n")
    case True
    then have "rc_walk env bc peak cur n []" by simp
    then show ?thesis by blast
  next
    case False
    then obtain c where cur: "cur = Some c" and lt: "n < ?M" by auto
    let ?ps = "record_pairs env (constants bc) peak c"
    let ?next = "block_records bc (prev_hash c)"
    have own: "c \<noteq> peak \<Longrightarrow> 1 \<le> length ?ps" by (simp add: record_pairs_def)
    have dec: "2 * (?M - (n + length ?ps)) + (if ?next = Some peak then 1 else 0)
        < 2 * (?M - n) + (if cur = Some peak then 1 else 0)"
    proof (cases "c = peak")
      case True
      then have "?next \<noteq> Some peak" using noloop by simp
      then show ?thesis using True cur by simp
    next
      case False
      then have "1 \<le> length ?ps" by (rule own)
      then have "2 * (?M - (n + length ?ps)) + 2 \<le> 2 * (?M - n)" using lt by simp
      then show ?thesis by (simp split: if_splits)
    qed
    from less.hyps [OF dec] obtain cs where "rc_walk env bc peak ?next (n + length ?ps) cs"
      by blast
    then have "rc_walk env bc peak cur n (c # cs)" using cur lt by simp
    then show ?thesis by blast
  qed
qed

lemma get_peak_cached: "get_peak bc = Inr (Some peak) \<Longrightarrow> cached bc peak"
  by (auto simp: get_peak_def height_to_block_record_def block_record_def cached_def
      split: option.splits sum.splits)

text \<open>
  C9 (amended). Let the peak be defined, let the parent hash of the peak not lead back to
  the peak, let every cached record that is first in its sub-slot carry its finished
  reward slot hashes, at most \<open>K\<close> of them. Then there is a walk back from the peak, and
  \<open>get_recent_reward_challenges\<close> returns, in chronological order, the pairs met on it:
  for each record visited its own \<open>(reward_infusion_new_challenge, total_iters)\<close> pair,
  the peak's own pair excepted, and if it is first in its sub-slot the pairs of its
  finished reward sub-slots with their total iterations. A record is visited while fewer
  than \<open>2 * MAX_SUB_SLOT_BLOCKS\<close> pairs have been collected, so the list has at most
  \<open>2 * MAX_SUB_SLOT_BLOCKS + K\<close> entries.
\<close>

theorem recent_reward_challenges:
  assumes pk: "get_peak bc = Inr (Some peak)"
    and noloop: "block_records bc (prev_hash peak) \<noteq> Some peak"
    and safe: "\<forall>r. cached bc r \<and> first_in_sub_slot r \<longrightarrow> finished_reward_slot_hashes r \<noteq> None"
    and few: "\<forall>r hs. cached bc r \<and> finished_reward_slot_hashes r = Some hs \<longrightarrow> length hs \<le> K"
  shows "(\<exists>cs. rc_walk env bc peak (Some peak) 0 cs)
    \<and> (\<forall>cs. rc_walk env bc peak (Some peak) 0 cs \<longrightarrow>
          get_recent_reward_challenges env bc
            = Some (Inr (rev (walk_pairs env (constants bc) peak cs)))
          \<and> length (walk_pairs env (constants bc) peak cs)
              \<le> 2 * MAX_SUB_SLOT_BLOCKS (constants bc) + K)"
proof (intro conjI allI impI)
  show "\<exists>cs. rc_walk env bc peak (Some peak) 0 cs"
    using noloop by (rule walk_exists)
next
  fix cs assume w: "rc_walk env bc peak (Some peak) 0 cs"
  have start: "Some peak = None \<or> (\<exists>c. Some peak = Some c \<and> cached bc c)"
    using get_peak_cached [OF pk] by simp
  from w have w0: "rc_walk env bc peak (Some peak) (length ([] :: (bytes32 \<times> nat) list)) cs"
    by simp
  from recent_rc_loop_walk [OF safe w0 start]
  have run: "recent_rc_loop env bc peak (Some peak) []
      = Some (Inr (walk_pairs env (constants bc) peak cs))"
    by simp
  show "get_recent_reward_challenges env bc
      = Some (Inr (rev (walk_pairs env (constants bc) peak cs)))"
    by (simp add: get_recent_reward_challenges_def pk run)
  have "\<forall>c \<in> set cs. cached bc c" using w start by (rule rc_walk_cached)
  with few have "\<forall>c \<in> set cs. \<forall>hs. finished_reward_slot_hashes c = Some hs \<longrightarrow> length hs \<le> K"
    by blast
  from walk_pairs_bound [OF w this]
  show "length (walk_pairs env (constants bc) peak cs) \<le> 2 * MAX_SUB_SLOT_BLOCKS (constants bc) + K"
    by simp
qed

lemmas peak_defs = get_peak_def height_to_block_record_def height_to_hash_def block_record_def
  hm_contains_height_def hm_get_hash_def

text \<open>
  C9, as the code has it. The pair of the peak itself is skipped: on the two-block chain
  only the pair of the genesis record is returned. And the bound is checked once per
  record, not per pair: with \<open>MAX_SUB_SLOT_BLOCKS = 2\<close> a peak that closes five sub-slots
  yields five pairs.
\<close>

theorem recent_reward_challenges_counterexample:
  "get_peak blockchain_1 = Inr (Some (mk_record 11 10 1 3 True))
   \<and> (reward_infusion_new_challenge (mk_record 11 10 1 3 True), total_iters (mk_record 11 10 1 3 True))
       = (711, 2000)
   \<and> get_recent_reward_challenges env_1 blockchain_1 = Some (Inr [(710, 1000)])
   \<and> 2 * MAX_SUB_SLOT_BLOCKS (constants blockchain_slots) = 4
   \<and> get_recent_reward_challenges env_1 blockchain_slots
       = Some (Inr [(1, 6000), (2, 7000), (3, 8000), (4, 9000), (5, 10000)])"
  by (simp add: get_recent_reward_challenges_def peak_defs recent_rc_loop.simps block_pairs_def
      try_block_record_def contains_block_def blockchain_1_def blockchain_slots_def record_slots_def
      mk_record_def constants_1_def env_1_def ip_total_1_def Let_def)

text \<open>
  On the chain of three records the walk visits the peak, its parent and genesis. The peak
  gives the pairs of its two finished sub-slots and not its own; genesis gives its own
  pair and the pair of the one finished sub-slot that fits below its total; the five pairs
  come back oldest first.
\<close>

theorem recent_reward_challenges_witness:
  "get_peak blockchain_3 = Inr (Some record_peak)
   \<and> rc_walk env_1 blockchain_3 record_peak (Some record_peak) 0
       [record_peak, record_middle, record_first]
   \<and> walk_pairs env_1 (constants blockchain_3) record_peak
       [record_peak, record_middle, record_first]
       = [(3, 3000), (2, 2000), (711, 2000), (710, 1000), (9, 1000)]
   \<and> get_recent_reward_challenges env_1 blockchain_3
       = Some (Inr [(9, 1000), (710, 1000), (711, 2000), (2, 2000), (3, 3000)])
   \<and> length [(3 :: nat, 3000 :: nat), (2, 2000), (711, 2000), (710, 1000), (9, 1000)]
       \<le> 2 * MAX_SUB_SLOT_BLOCKS (constants blockchain_3) + 2"
proof -
  let ?cs = "[record_peak, record_middle, record_first]"
  have pk: "get_peak blockchain_3 = Inr (Some record_peak)"
    by (simp add: peak_defs blockchain_3_def)
  have noloop: "block_records blockchain_3 (prev_hash record_peak) \<noteq> Some record_peak"
    by (simp add: blockchain_3_def record_peak_def record_middle_def mk_record_def)
  have c: "cached blockchain_3 r
      \<longleftrightarrow> r = record_first \<or> r = record_middle \<or> r = record_peak" for r
  proof
    assume "cached blockchain_3 r"
    then show "r = record_first \<or> r = record_middle \<or> r = record_peak"
      by (auto simp: cached_def blockchain_3_def split: if_splits)
  next
    assume "r = record_first \<or> r = record_middle \<or> r = record_peak"
    then consider "block_records blockchain_3 10 = Some r" | "block_records blockchain_3 11 = Some r"
      | "block_records blockchain_3 12 = Some r"
      by (auto simp: blockchain_3_def)
    then show "cached blockchain_3 r" unfolding cached_def by cases blast+
  qed
  have safe: "\<forall>r. cached blockchain_3 r \<and> first_in_sub_slot r \<longrightarrow> finished_reward_slot_hashes r \<noteq> None"
    unfolding c by (auto simp: mk_record_def record_first_def record_middle_def record_peak_def)
  have few: "\<forall>r hs. cached blockchain_3 r \<and> finished_reward_slot_hashes r = Some hs \<longrightarrow> length hs \<le> 2"
    unfolding c by (auto simp: mk_record_def record_first_def record_middle_def record_peak_def)
  have pairs: "record_pairs env_1 constants_1 record_peak record_peak = [(3, 3000), (2, 2000)]"
    "record_pairs env_1 constants_1 record_peak record_middle = [(711, 2000)]"
    "record_pairs env_1 constants_1 record_peak record_first = [(710, 1000), (9, 1000)]"
    by (simp_all add: record_pairs_def finished_slot_pairs_def record_peak_def record_middle_def
        record_first_def mk_record_def env_1_def ip_total_1_def upt_conv_Cons)
  have co: "constants blockchain_3 = constants_1" by (simp add: blockchain_3_def)
  have parent: "block_records blockchain_3 (prev_hash record_peak) = Some record_middle"
    "block_records blockchain_3 (prev_hash record_middle) = Some record_first"
    "block_records blockchain_3 (prev_hash record_first) = None"
    by (simp_all add: blockchain_3_def record_peak_def record_middle_def record_first_def
        mk_record_def)
  have m: "MAX_SUB_SLOT_BLOCKS constants_1 = 2" by (simp add: constants_1_def)
  have w: "rc_walk env_1 blockchain_3 record_peak (Some record_peak) 0 ?cs"
    by (simp add: co pairs parent m)
  have wp: "walk_pairs env_1 (constants blockchain_3) record_peak ?cs
      = [(3, 3000), (2, 2000), (711, 2000), (710, 1000), (9, 1000)]"
    by (simp add: walk_pairs_def co pairs)
  from recent_reward_challenges [OF pk noloop safe few, of env_1] w
  have "get_recent_reward_challenges env_1 blockchain_3
          = Some (Inr (rev (walk_pairs env_1 (constants blockchain_3) record_peak ?cs)))
      \<and> length (walk_pairs env_1 (constants blockchain_3) record_peak ?cs)
          \<le> 2 * MAX_SUB_SLOT_BLOCKS (constants blockchain_3) + 2"
    by blast
  with pk w wp show ?thesis by (simp add: co m)
qed

subsection \<open>Pre-validation\<close>

lemmas pv_defs = pre_validate_blocks_multiprocessing_def recent_window_def error_result_def
  cache_contains_block_def cache_block_record_def cache_add_block_record_def
  cache_remove_block_record_def wp_summary_matches_def

lemmas pv_concrete_defs = pv_ses_fails_def pv_pospace_fails_def two_blocks_def mk_full_block_def
  ssi_diff_1_def quality_ok_def quality_bad_at_1_def iters_1_def pv_b2r_ok_def pv_b2r_ses_fails_def
  mk_record_def

text \<open>
  C8, at the failing input. Two blocks unknown to an empty view are pre-validated; the
  first passes and its tentative record is added; building the record of the second raises
  \<open>ValueError\<close>. The function returns \<open>INVALID_SUB_EPOCH_SUMMARY\<close> and the view still
  holds the tentative record of the first block: the two returns of that error code skip
  the clean-up that the \<open>INVALID_POSPACE\<close> return makes.
\<close>

theorem pre_validate_leaves_tentative_record:
  "pre_validate_blocks_multiprocessing pv_ses_fails constants_1 Map.empty two_blocks 4 None
     = Some ([10 \<mapsto> mk_record 10 0 0 1 True],
             Inr [\<lparr>pv_error = Some (err_value pv_ses_fails INVALID_SUB_EPOCH_SUMMARY),
                   pv_required_iters = None\<rparr>])"
  by (simp add: pv_defs pv_concrete_defs)

text \<open>
  On the same blocks a proof-of-space failure at the second block leaves the view empty,
  as it was.
\<close>

lemma pre_validate_pospace_cleans_up:
  "pre_validate_blocks_multiprocessing pv_pospace_fails constants_1 Map.empty two_blocks 4 None
     = Some (Map.empty,
             Inr [\<lparr>pv_error = Some (err_value pv_pospace_fails INVALID_POSPACE),
                   pv_required_iters = None\<rparr>])"
  by (simp add: pv_defs pv_concrete_defs)

text \<open>
  A block that comes twice in the list is added once and removed once; its second removal
  raises \<open>KeyError\<close>, after the first has taken the tentative record out of the view.
\<close>

lemma pre_validate_repeated_block:
  "pre_validate_blocks_multiprocessing pv_ses_fails constants_1 Map.empty repeated_block 4 None
     = Some (Map.empty, Inl KeyError)"
  by (simp add: pv_defs pv_concrete_defs repeated_block_def Let_def)

text \<open>The \<open>INVALID_PREV_BLOCK_HASH\<close> return comes before any write to the view.\<close>

lemma pre_validate_disconnected_untouched:
  assumes "fb_height block0 > 0" and "view (fb_prev_header_hash block0) = None"
  shows "pre_validate_blocks_multiprocessing pv C view (block0 # others) batch_size wp
     = Some (view, Inr (error_result pv INVALID_PREV_BLOCK_HASH))"
  using assms by (simp add: pre_validate_blocks_multiprocessing_def recent_window_def
      cache_contains_block_def)

text \<open>
  The clean-up of the proof-of-space path, for every input: while the view differs from
  the view before the call only at hashes of blocks of the list that were not cached
  then, the removal loop gives back the view before the call.
\<close>

lemma remove_tentative_lookup:
  "remove_tentative m (zip bs (map (\<lambda>b. cache_contains_block view0 (fb_header_hash b)) bs)) k
     = (if k \<in> fb_header_hash ` set bs \<and> view0 k = None then None else m k)"
proof (induction bs arbitrary: m)
  case Nil
  then show ?case by simp
next
  case (Cons b bs)
  let ?m1 = "if \<not> cache_contains_block view0 (fb_header_hash b)
                \<and> cache_contains_block m (fb_header_hash b)
             then m(fb_header_hash b := None) else m"
  have m1: "?m1 k = (if k = fb_header_hash b \<and> view0 k = None then None else m k)"
    unfolding cache_contains_block_def by (cases "m (fb_header_hash b)") auto
  have "remove_tentative m
          (zip (b # bs) (map (\<lambda>b. cache_contains_block view0 (fb_header_hash b)) (b # bs))) k
      = remove_tentative ?m1 (zip bs (map (\<lambda>b. cache_contains_block view0 (fb_header_hash b)) bs)) k"
    by simp
  also have "\<dots> = (if k \<in> fb_header_hash ` set bs \<and> view0 k = None then None else ?m1 k)"
    by (rule Cons.IH)
  also have "\<dots> = (if k \<in> fb_header_hash ` set (b # bs) \<and> view0 k = None then None else m k)"
    unfolding m1 by auto
  finally show ?case .
qed

lemma remove_tentative_restores:
  assumes "\<forall>k. m k \<noteq> view0 k \<longrightarrow> view0 k = None \<and> k \<in> fb_header_hash ` set bs"
  shows "remove_tentative m (zip bs (map (\<lambda>b. cache_contains_block view0 (fb_header_hash b)) bs)) = view0"
proof
  fix k
  show "remove_tentative m (zip bs (map (\<lambda>b. cache_contains_block view0 (fb_header_hash b)) bs)) k
      = view0 k"
    unfolding remove_tentative_lookup using assms by (cases "m k = view0 k") auto
qed

text \<open>
  So the \<open>INVALID_POSPACE\<close> return leaves the view as it was before the call, when the
  tentative record of a block carries the block's header hash and the error codes of
  \<open>INVALID_POSPACE\<close> and \<open>INVALID_SUB_EPOCH_SUMMARY\<close> differ.
\<close>

lemma tentative_loop_pospace_restores:
  assumes hh: "\<forall>m ri block ssi r. pv_block_to_block_record pv C m ri block ssi = Inr r
        \<longrightarrow> header_hash r = fb_header_hash block"
    and codes: "err_value pv INVALID_POSPACE \<noteq> err_value pv INVALID_SUB_EPOCH_SUMMARY"
  shows "tentative_loop pv C wp (zip bs (map (\<lambda>b. cache_contains_block view0 (fb_header_hash b)) bs)) rest st
           = (m', Return (error_result pv INVALID_POSPACE))
    \<Longrightarrow> set rest \<subseteq> set bs
    \<Longrightarrow> \<forall>k. ts_block_records st k \<noteq> view0 k \<longrightarrow> view0 k = None \<and> k \<in> fb_header_hash ` set bs
    \<Longrightarrow> m' = view0"
proof (induction rest arbitrary: st)
  case Nil
  then show ?case by simp
next
  case (Cons block rest)
  let ?present = "zip bs (map (\<lambda>b. cache_contains_block view0 (fb_header_hash b)) bs)"
  let ?m = "ts_block_records st"
  from Cons.prems(1) obtain prev_b where pb:
    "(if fb_height block \<noteq> 0
      then (if \<not> cache_contains_block ?m (fb_prev_header_hash block) then Inl AssertionError
            else (case ts_prev_b st of
                    None \<Rightarrow> (case cache_block_record ?m (fb_prev_header_hash block) of
                               Inl e \<Rightarrow> Inl e | Inr r \<Rightarrow> Inr (Some r))
                  | Some p \<Rightarrow> Inr (Some p)))
      else Inr (ts_prev_b st)) = Inr prev_b"
    by (auto split: sum.splits)
  obtain ssi diff where sd: "get_next_sub_slot_iters_and_difficulty pv C
      (0 < fb_finished_sub_slots block) prev_b ?m = (ssi, diff)"
    by (cases "get_next_sub_slot_iters_and_difficulty pv C (0 < fb_finished_sub_slots block) prev_b ?m")
  show ?case
  proof (cases "quality_string pv C block (ts_recent_blocks st) (prev_b = None)")
    case None
    with Cons.prems(1) pb sd have "m' = remove_tentative ?m ?present"
      by simp
    then show ?thesis using remove_tentative_restores [OF Cons.prems(3)] by simp
  next
    case (Some q)
    let ?b2r = "pv_block_to_block_record pv C ?m (calculate_iterations_quality pv C q block diff) block ssi"
    from Cons.prems(1) pb sd Some codes obtain r where r: "?b2r = Inr r"
      by (cases ?b2r) (auto simp: error_result_def split: if_splits)
    from hh r have hr: "header_hash r = fb_header_hash block" by blast
    from Cons.prems(1) pb sd Some r codes have ok: "wp_summary_matches pv C wp block r = Inr True"
      by (auto simp: error_result_def split: sum.splits bool.splits)
    let ?st' = "\<lparr>ts_block_records =
                   (if \<not> cache_contains_block ?m (header_hash r)
                    then cache_add_block_record ?m r else ?m),
                 ts_recent_blocks = (ts_recent_blocks st)(header_hash r \<mapsto>
                    (case ?m (header_hash r) of None \<Rightarrow> r | Some r' \<Rightarrow> r')),
                 ts_recent_blocks_compressed = (ts_recent_blocks_compressed st)(header_hash r \<mapsto>
                    (case ?m (header_hash r) of None \<Rightarrow> r | Some r' \<Rightarrow> r')),
                 ts_prev_b = Some r,
                 ts_diff_ssis = ts_diff_ssis st @ [(diff, ssi)]\<rparr>"
    from Cons.prems(1) pb sd Some r ok
    have run: "tentative_loop pv C wp ?present rest ?st' = (m', Return (error_result pv INVALID_POSPACE))"
      by (simp add: Let_def)
    have sub: "set rest \<subseteq> set bs" using Cons.prems(2) by simp
    have mem: "fb_header_hash block \<in> fb_header_hash ` set bs" using Cons.prems(2) by simp
    have inv: "\<forall>k. ts_block_records ?st' k \<noteq> view0 k \<longrightarrow> view0 k = None \<and> k \<in> fb_header_hash ` set bs"
    proof (intro allI impI)
      fix k assume d: "ts_block_records ?st' k \<noteq> view0 k"
      show "view0 k = None \<and> k \<in> fb_header_hash ` set bs"
      proof (cases "ts_block_records ?st' k = ?m k")
        case True
        with d Cons.prems(3) show ?thesis by simp
      next
        case False
        then have k: "k = fb_header_hash block" and fresh: "?m k = None"
          by (auto simp: cache_contains_block_def cache_add_block_record_def hr split: if_splits)
        have "view0 k = None"
        proof (rule ccontr)
          assume "view0 k \<noteq> None"
          with fresh have "?m k \<noteq> view0 k" by auto
          with Cons.prems(3) have "view0 k = None" by blast
          with \<open>view0 k \<noteq> None\<close> show False by simp
        qed
        with k mem show ?thesis by simp
      qed
    qed
    from Cons.IH [OF run sub inv] show ?thesis .
  qed
qed

end
